theory Spec2Isabelle
  imports Main "HOL-Library.Log_Nat"
begin

section \<open>EPF annual account slip generator: the calculation core\<close>

text \<open>
  A shallow embedding of \<^verbatim>\<open>epf_calculator.py\<close>: the dimension validator, the record
  extractor, the contribution engine, the balance and interest engine and the statement
  assembler. Console handling and the spreadsheet and CSV writers are not modelled.
\<close>

subsection \<open>Exceptions\<close>

text \<open>
  Every \<^verbatim>\<open>raise\<close> of the source, and every exception of the built-in operations it
  uses, is a value. \<open>DataValidationError\<close> carries the message of the exception.
\<close>

datatype error =
    IndexError
  | TypeError
  | ValueError
  | OverflowError
  | ZeroDivisionError
  | DataValidationError string

definition bindE :: "error + 'a \<Rightarrow> ('a \<Rightarrow> error + 'b) \<Rightarrow> error + 'b" where
  "bindE m f = (case m of Inl e \<Rightarrow> Inl e | Inr x \<Rightarrow> f x)"

subsection \<open>Python floats\<close>

text \<open>
  A Python \<^verbatim>\<open>float\<close> is an IEEE 754 binary64 number: a finite value, which is a
  rational with a 53 bit significand, an infinity or a NaN. The sign of a zero is not
  kept: no operation of the program can observe it, since every float the program
  computes is passed to \<^verbatim>\<open>round\<close>.

  \<open>fl\<close> rounds a rational to the nearest number with a 53 bit significand (with the
  fixed spacing \<open>2\<^sup>-\<^sup>1\<^sup>0\<^sup>7\<^sup>4\<close> in the subnormal range), ties to the even significand, as
  the hardware does after every operation and as the interpreter does when it reads a
  decimal literal. A result of magnitude \<open>2\<^sup>1\<^sup>0\<^sup>2\<^sup>4\<close> or more is an overflow.
\<close>

datatype pyfloat = Finite rat | PInf | NInf | NaN

definition round_half_even :: "rat \<Rightarrow> int" where
  "round_half_even x =
     (let f = \<lfloor>x\<rfloor>; d = x - of_int f
      in if d < 1 / 2 then f else if 1 / 2 < d then f + 1 else if even f then f else f + 1)"

definition pow2 :: "int \<Rightarrow> rat" where
  "pow2 e = (if 0 \<le> e then 2 ^ nat e else 1 / 2 ^ nat (- e))"

definition ilog2 :: "rat \<Rightarrow> int" where
  "ilog2 x =
     (let (a, b) = quotient_of \<bar>x\<bar>; d = bitlen a - bitlen b
      in if pow2 d \<le> \<bar>x\<bar> then d else d - 1)"

definition fl :: "rat \<Rightarrow> rat" where
  "fl x =
     (if x = 0 then 0
      else let q = pow2 (max (ilog2 x) (- 1022) - 52)
           in of_int (round_half_even (x / q)) * q)"

text \<open>
  The overflow test \<open>2\<^sup>1\<^sup>0\<^sup>2\<^sup>4 \<le> \<bar>y\<bar>\<close>, written on the integer part, which it is
  equivalent to, since the bound is an integer.
\<close>

definition overflows :: "rat \<Rightarrow> bool" where
  "overflows y \<longleftrightarrow> (2 :: int) ^ 1024 \<le> \<lfloor>\<bar>y\<bar>\<rfloor>"

definition float_of_rat :: "rat \<Rightarrow> pyfloat" where
  "float_of_rat x =
     (let y = fl x
      in if overflows y then (if 0 < y then PInf else NInf) else Finite y)"

text \<open>Conversion of an \<^verbatim>\<open>int\<close> operand: correctly rounded, \<^verbatim>\<open>OverflowError\<close> when too large.\<close>

definition float_of_int :: "int \<Rightarrow> error + pyfloat" where
  "float_of_int n =
     (let y = fl (of_int n)
      in if overflows y then Inl OverflowError else Inr (Finite y))"

definition float_neg :: "pyfloat \<Rightarrow> pyfloat" where
  "float_neg a = (case a of Finite x \<Rightarrow> Finite (- x) | PInf \<Rightarrow> NInf | NInf \<Rightarrow> PInf | NaN \<Rightarrow> NaN)"

fun float_mul :: "pyfloat \<Rightarrow> pyfloat \<Rightarrow> pyfloat" where
  "float_mul NaN b = NaN"
| "float_mul a NaN = NaN"
| "float_mul (Finite x) (Finite y) = float_of_rat (x * y)"
| "float_mul (Finite x) PInf = (if x = 0 then NaN else if 0 < x then PInf else NInf)"
| "float_mul (Finite x) NInf = (if x = 0 then NaN else if 0 < x then NInf else PInf)"
| "float_mul PInf (Finite y) = (if y = 0 then NaN else if 0 < y then PInf else NInf)"
| "float_mul NInf (Finite y) = (if y = 0 then NaN else if 0 < y then NInf else PInf)"
| "float_mul PInf PInf = PInf"
| "float_mul PInf NInf = NInf"
| "float_mul NInf PInf = NInf"
| "float_mul NInf NInf = PInf"

text \<open>True division of a float by an \<^verbatim>\<open>int\<close> constant, which is converted first.\<close>

fun float_div :: "pyfloat \<Rightarrow> pyfloat \<Rightarrow> error + pyfloat" where
  "float_div a (Finite y) =
     (if y = 0 then Inl ZeroDivisionError
      else case a of
          Finite x \<Rightarrow> Inr (float_of_rat (x / y))
        | PInf \<Rightarrow> Inr (if 0 < y then PInf else NInf)
        | NInf \<Rightarrow> Inr (if 0 < y then NInf else PInf)
        | NaN \<Rightarrow> Inr NaN)"
| "float_div (Finite x) b = Inr (case b of NaN \<Rightarrow> NaN | _ \<Rightarrow> Finite 0)"
| "float_div a b = Inr NaN"

text \<open>
  The built-in \<^verbatim>\<open>round\<close> with one argument: the nearest \<^verbatim>\<open>int\<close>, a tie going to the
  even one; it raises on an infinity and on a NaN.
\<close>

definition py_round :: "pyfloat \<Rightarrow> error + int" where
  "py_round a =
     (case a of
        Finite x \<Rightarrow> Inr (round_half_even x)
      | PInf \<Rightarrow> Inl OverflowError
      | NInf \<Rightarrow> Inl OverflowError
      | NaN \<Rightarrow> Inl ValueError)"

subsection \<open>Cell values\<close>

text \<open>
  What a worksheet cell holds, as the loader hands it over: nothing, an \<^verbatim>\<open>int\<close>, a
  \<^verbatim>\<open>float\<close> or a \<^verbatim>\<open>str\<close> (of ASCII characters). Boolean and date cells are not modelled.
\<close>

datatype pyval = PyNone | PyInt int | PyFloat pyfloat | PyStr string

text \<open>\<^verbatim>\<open>value * RATE\<close> with a float constant on the right.\<close>

definition py_mul_float :: "pyval \<Rightarrow> pyfloat \<Rightarrow> error + pyfloat" where
  "py_mul_float v r =
     (case v of
        PyInt n \<Rightarrow> bindE (float_of_int n) (\<lambda>a. Inr (float_mul a r))
      | PyFloat a \<Rightarrow> Inr (float_mul a r)
      | PyNone \<Rightarrow> Inl TypeError
      | PyStr s \<Rightarrow> Inl TypeError)"

subsection \<open>Constants\<close>

definition EMPLOYEE_CONTRIBUTION_RATE :: pyfloat where
  "EMPLOYEE_CONTRIBUTION_RATE = float_of_rat (12 / 100)"

definition EPS_CONTRIBUTION_RATE :: pyfloat where
  "EPS_CONTRIBUTION_RATE = float_of_rat (833 / 10000)"

definition EMPLOYER_CONTRIBUTION_RATE :: pyfloat where
  "EMPLOYER_CONTRIBUTION_RATE = float_of_rat (367 / 10000)"

definition INTEREST_DIVISOR :: int where
  "INTEREST_DIVISOR = 1200"


definition EXPECTED_WDL_COLUMNS :: nat where
  "EXPECTED_WDL_COLUMNS = 12"


subsection \<open>Contribution engine\<close>

text \<open>
  \<^verbatim>\<open>calculate_contributions\<close>: three products, each rounded by \<^verbatim>\<open>round\<close>, evaluated in
  the order employee, eps, employer and returned in the order employee, employer, eps.
\<close>

definition calculate_contributions :: "pyval \<Rightarrow> error + (int \<times> int \<times> int)" where
  "calculate_contributions wage =
     bindE (bindE (py_mul_float wage EMPLOYEE_CONTRIBUTION_RATE) py_round) (\<lambda>employee.
     bindE (bindE (py_mul_float wage EPS_CONTRIBUTION_RATE) py_round) (\<lambda>eps.
     bindE (bindE (py_mul_float wage EMPLOYER_CONTRIBUTION_RATE) py_round) (\<lambda>employer.
     Inr (employee, employer, eps))))"

subsection \<open>Built-in conversions and list access\<close>

text \<open>\<^verbatim>\<open>xs[i]\<close> with a non-negative index: \<^verbatim>\<open>IndexError\<close> out of range.\<close>

definition py_index :: "'a list \<Rightarrow> nat \<Rightarrow> error + 'a" where
  "py_index xs i = (if i < length xs then Inr (xs ! i) else Inl IndexError)"

text \<open>
  \<^verbatim>\<open>str(n)\<close> of an \<^verbatim>\<open>int\<close>: its decimal digits, with a minus sign when negative. (The
  interpreter's optional limit on the number of digits of such conversions is taken to
  be switched off.)
\<close>

fun str_nat :: "nat \<Rightarrow> string" where
  "str_nat n =
     (if n < 10 then [char_of (48 + n)]
      else str_nat (n div 10) @ [char_of (48 + n mod 10)])"

definition str_int :: "int \<Rightarrow> string" where
  "str_int n = (if n < 0 then CHR ''-'' # str_nat (nat (- n)) else str_nat (nat n))"

text \<open>
  \<^verbatim>\<open>int(s)\<close> of a \<^verbatim>\<open>str\<close>: surrounding white space is dropped, then an optional sign and
  decimal digits, where single underscores may separate digits.
\<close>

definition is_space :: "char \<Rightarrow> bool" where
  "is_space c \<longleftrightarrow> (of_char c :: nat) \<in> {9, 10, 11, 12, 13, 32}"

definition is_digit :: "char \<Rightarrow> bool" where
  "is_digit c \<longleftrightarrow> 48 \<le> (of_char c :: nat) \<and> (of_char c :: nat) \<le> 57"

definition strip :: "string \<Rightarrow> string" where
  "strip s = rev (dropWhile is_space (rev (dropWhile is_space s)))"

fun parse_digits :: "nat \<Rightarrow> bool \<Rightarrow> string \<Rightarrow> nat option" where
  "parse_digits acc after_digit [] = (if after_digit then Some acc else None)"
| "parse_digits acc after_digit (c # cs) =
     (if is_digit c then parse_digits (10 * acc + (of_char c - 48)) True cs
      else if c = CHR ''_'' \<and> after_digit then parse_digits acc False cs
      else None)"

definition int_of_str :: "string \<Rightarrow> error + int" where
  "int_of_str s =
     (case strip s of
        [] \<Rightarrow> Inl ValueError
      | c # cs \<Rightarrow>
          if c = CHR ''-'' then
            (case parse_digits 0 False cs of None \<Rightarrow> Inl ValueError | Some n \<Rightarrow> Inr (- int n))
          else if c = CHR ''+'' then
            (case parse_digits 0 False cs of None \<Rightarrow> Inl ValueError | Some n \<Rightarrow> Inr (int n))
          else
            (case parse_digits 0 False (c # cs) of None \<Rightarrow> Inl ValueError | Some n \<Rightarrow> Inr (int n)))"

text \<open>
  The built-in \<^verbatim>\<open>int\<close>: the identity on an \<^verbatim>\<open>int\<close>, truncation towards zero on a
  finite \<^verbatim>\<open>float\<close>, parsing on a \<^verbatim>\<open>str\<close>.
\<close>

definition py_int :: "pyval \<Rightarrow> error + int" where
  "py_int v =
     (case v of
        PyInt n \<Rightarrow> Inr n
      | PyFloat a \<Rightarrow>
          (case a of
             Finite x \<Rightarrow> Inr (if 0 \<le> x then \<lfloor>x\<rfloor> else \<lceil>x\<rceil>)
           | PInf \<Rightarrow> Inl OverflowError
           | NInf \<Rightarrow> Inl OverflowError
           | NaN \<Rightarrow> Inl ValueError)
      | PyStr s \<Rightarrow> int_of_str s
      | PyNone \<Rightarrow> Inl TypeError)"

text \<open>The comprehension \<^verbatim>\<open>[int(x) for x in xs]\<close>: it raises at the first element that does.\<close>

fun int_list :: "pyval list \<Rightarrow> error + int list" where
  "int_list [] = Inr []"
| "int_list (x # xs) = bindE (py_int x) (\<lambda>n. bindE (int_list xs) (\<lambda>ns. Inr (n # ns)))"

subsection \<open>Balance and interest engine\<close>

text \<open>
  The body of the loop of \<^verbatim>\<open>calculate_monthly_balances\<close>, on the state of the four
  variables it updates. The four lists are read at the index \<open>i\<close> in the order of the
  source.
\<close>

type_synonym balances = "int \<times> int \<times> int list \<times> int list"

definition balance_step ::
  "int list \<Rightarrow> int list \<Rightarrow> int list \<Rightarrow> int list \<Rightarrow> nat \<Rightarrow> balances \<Rightarrow> error + balances" where
  "balance_step ee_contributions er_contributions ee_withdrawals er_withdrawals i st =
     (case st of (current_ee_balance, current_er_balance, ee_balances, er_balances) \<Rightarrow>
        bindE (py_index ee_contributions i) (\<lambda>c_ee.
        bindE (py_index ee_withdrawals i) (\<lambda>w_ee.
        bindE (py_index er_contributions i) (\<lambda>c_er.
        bindE (py_index er_withdrawals i) (\<lambda>w_er.
        Inr (current_ee_balance + c_ee - w_ee,
             current_er_balance + c_er - w_er,
             ee_balances @ [current_ee_balance + c_ee - w_ee],
             er_balances @ [current_er_balance + c_er - w_er]))))))"

text \<open>A \<^verbatim>\<open>for\<close> loop over a list of values, stopped by the first exception.\<close>

fun for_loop :: "('i \<Rightarrow> 's \<Rightarrow> error + 's) \<Rightarrow> 'i list \<Rightarrow> 's \<Rightarrow> error + 's" where
  "for_loop body [] st = Inr st"
| "for_loop body (i # rest) st = bindE (body i st) (for_loop body rest)"

text \<open>\<^verbatim>\<open>round(((sum_balances - total_withdrawals) * rate) / INTEREST_DIVISOR)\<close>.\<close>

definition interest :: "int \<Rightarrow> int \<Rightarrow> pyfloat \<Rightarrow> error + int" where
  "interest sum_balances total_withdrawals rate =
     bindE (float_of_int (sum_balances - total_withdrawals)) (\<lambda>net.
     bindE (float_of_int INTEREST_DIVISOR) (\<lambda>divisor.
     bindE (float_div (float_mul net rate) divisor) py_round))"

definition calculate_monthly_balances ::
  "int \<Rightarrow> int \<Rightarrow> int list \<Rightarrow> int list \<Rightarrow> int list \<Rightarrow> int list \<Rightarrow> pyfloat
     \<Rightarrow> error + (int list \<times> int list \<times> int \<times> int)" where
  "calculate_monthly_balances ob_ee ob_er ee_contributions er_contributions
       ee_withdrawals er_withdrawals rate =
     bindE (for_loop (balance_step ee_contributions er_contributions ee_withdrawals er_withdrawals)
              [0 ..< length ee_contributions - 1] (ob_ee, ob_er, [ob_ee], [ob_er]))
       (\<lambda>(current_ee_balance, current_er_balance, ee_balances, er_balances).
     bindE (interest (sum_list ee_balances) (sum_list ee_withdrawals) rate) (\<lambda>ee_interest.
     bindE (interest (sum_list er_balances) (sum_list er_withdrawals) rate) (\<lambda>er_interest.
     Inr (ee_balances, er_balances, ee_interest, er_interest))))"

subsection \<open>Statement assembler\<close>

text \<open>
  The inner loop of \<^verbatim>\<open>generate_output_rows\<close> over the monthly wages, on the three lists
  it appends to.
\<close>

definition contribution_step ::
  "pyval \<Rightarrow> int list \<times> int list \<times> int list \<Rightarrow> error + (int list \<times> int list \<times> int list)" where
  "contribution_step wage st =
     (case st of (ee_contribs, er_contribs, eps_contribs) \<Rightarrow>
        bindE (calculate_contributions wage) (\<lambda>(ee, er, eps).
        Inr (ee_contribs @ [ee], er_contribs @ [er], eps_contribs @ [eps])))"

definition header_row :: "pyval list" where
  "header_row =
     [PyStr ''A/C No.'', PyStr ''NAME'', PyStr ''OB(EE)'', PyStr ''OB(ER)'', PyStr ''INT(EE)'',
      PyStr ''INT(ER)'', PyStr ''CONT(EE)'', PyStr ''CONT(ER)'', PyStr ''WDL(EE)'',
      PyStr ''WDL(ER)'', PyStr ''CB(EE)'', PyStr ''CB(ER)'', PyStr ''OB(EPS)'',
      PyStr ''CONT(EPS)'', PyStr ''CB(EPS)'']"

text \<open>
  The body of the outer loop, for the employee at position \<open>i\<close>: the row it appends.
  The slice \<^verbatim>\<open>wage_row[2 : 2 + EXPECTED_WDL_COLUMNS]\<close> never raises; it is shorter than
  twelve when the row is.
\<close>

definition employee_row ::
  "pyval list \<Rightarrow> pyval list \<Rightarrow> pyval list \<Rightarrow> pyval list list \<Rightarrow> pyval list list \<Rightarrow> pyfloat
     \<Rightarrow> nat \<Rightarrow> pyval list \<Rightarrow> error + pyval list" where
  "employee_row ob_ee_data ob_er_data ob_eps_data wdl_ee_data wdl_er_data rate i wage_row =
     bindE (py_index wage_row 0) (\<lambda>account_no.
     bindE (py_index wage_row 1) (\<lambda>name.
     bindE (for_loop contribution_step (take EXPECTED_WDL_COLUMNS (drop 2 wage_row)) ([], [], []))
       (\<lambda>(ee_contribs, er_contribs, eps_contribs).
     bindE (bindE (py_index ob_ee_data i) py_int) (\<lambda>ob_ee.
     bindE (bindE (py_index ob_er_data i) py_int) (\<lambda>ob_er.
     bindE (bindE (py_index ob_eps_data i) py_int) (\<lambda>ob_eps.
     bindE (bindE (py_index wdl_ee_data i) int_list) (\<lambda>ee_withdrawals.
     bindE (bindE (py_index wdl_er_data i) int_list) (\<lambda>er_withdrawals.
     bindE (calculate_monthly_balances ob_ee ob_er ee_contribs er_contribs
              ee_withdrawals er_withdrawals rate)
       (\<lambda>(ee_balances, er_balances, ee_interest, er_interest).
     let total_ee_contrib = sum_list ee_contribs;
         total_er_contrib = sum_list er_contribs;
         total_ee_wdl = sum_list ee_withdrawals;
         total_er_wdl = sum_list er_withdrawals;
         total_eps = sum_list eps_contribs;
         cb_ee = ob_ee + ee_interest + total_ee_contrib - total_ee_wdl;
         cb_er = ob_er + er_interest + total_er_contrib - total_er_wdl;
         cb_eps = ob_eps + total_eps
     in Inr [account_no, name,
             PyStr (str_int ob_ee), PyStr (str_int ob_er),
             PyStr (str_int ee_interest), PyStr (str_int er_interest),
             PyStr (str_int total_ee_contrib), PyStr (str_int total_er_contrib),
             PyStr (str_int total_ee_wdl), PyStr (str_int total_er_wdl),
             PyStr (str_int cb_ee), PyStr (str_int cb_er),
             PyStr (str_int ob_eps), PyStr (str_int total_eps),
             PyStr (str_int cb_eps)])))))))))"

definition append_row ::
  "(nat \<Rightarrow> pyval list \<Rightarrow> error + pyval list) \<Rightarrow> nat \<times> pyval list \<Rightarrow> pyval list list
     \<Rightarrow> error + pyval list list" where
  "append_row row_of iw output_rows =
     bindE (row_of (fst iw) (snd iw)) (\<lambda>row. Inr (output_rows @ [row]))"

definition generate_output_rows ::
  "pyval list list \<Rightarrow> pyval list \<Rightarrow> pyval list \<Rightarrow> pyval list \<Rightarrow> pyval list list \<Rightarrow> pyval list list
     \<Rightarrow> pyfloat \<Rightarrow> error + pyval list list" where
  "generate_output_rows wage_sheet_data ob_ee_data ob_er_data ob_eps_data wdl_ee_data wdl_er_data rate =
     for_loop
       (append_row (employee_row ob_ee_data ob_er_data ob_eps_data wdl_ee_data wdl_er_data rate))
       (enumerate 0 wage_sheet_data) [header_row]"

subsection \<open>Worksheets, validation and extraction\<close>

text \<open>
  A worksheet, as far as the program reads it: its dimensions and the value of the cell
  at a row and a column, both counted from 1. An absent cell has the value \<open>PyNone\<close>.
\<close>

record worksheet =
  max_row :: nat
  max_column :: nat
  cell_value :: "nat \<Rightarrow> nat \<Rightarrow> pyval"




text \<open>
  \<^verbatim>\<open>fetch_sheet_data\<close>: the rows from the second to the last. With the data type
  \<^verbatim>\<open>'single'\<close> each row gives the value of its first cell, with any other data type the
  list of the values of all its cells; \<^verbatim>\<open>None\<close> is replaced by \<open>0\<close>.
\<close>

datatype sheet_data = Single "pyval list" | Multi "pyval list list"

definition none_to_zero :: "pyval \<Rightarrow> pyval" where
  "none_to_zero v = (if v = PyNone then PyInt 0 else v)"

definition fetch_sheet_data :: "worksheet \<Rightarrow> string \<Rightarrow> sheet_data" where
  "fetch_sheet_data sheet data_type =
     (if data_type = ''single'' then
        Single (map (\<lambda>row. none_to_zero (cell_value sheet row 1)) [2 ..< max_row sheet + 1])
      else
        Multi (map (\<lambda>row. map (\<lambda>column. none_to_zero (cell_value sheet row column))
                              [1 ..< max_column sheet + 1])
                 [2 ..< max_row sheet + 1]))"

subsection \<open>The contribution rule in the words of the specification\<close>

text \<open>
  The specification's rule, for comparison with \<open>calculate_contributions\<close>: each share
  is its own exact rate times the wage, rounded to the nearest whole unit, a half going
  up.
\<close>

definition round_half_up :: "rat \<Rightarrow> int" where
  "round_half_up x = \<lfloor>x + 1 / 2\<rfloor>"

definition contributions_half_up :: "int \<Rightarrow> int \<times> int \<times> int" where
  "contributions_half_up wage =
     (round_half_up (12 / 100 * of_int wage),
      round_half_up (367 / 10000 * of_int wage),
      round_half_up (833 / 10000 * of_int wage))"

subsection \<open>The validator in the words of the specification\<close>




text \<open>
  A sheet of a header row and two data rows of two columns; its first data cell is
  missing and its last holds a text.
\<close>

definition sample_sheet :: worksheet where
  "sample_sheet =
     \<lparr>max_row = 3, max_column = 2,
      cell_value = (\<lambda>row column. if row = 2 \<and> column = 1 then PyNone
                                  else if row = 3 \<and> column = 2 then PyStr ''n/a''
                                  else PyInt (int (10 * row + column)))\<rparr>"

section \<open>Properties\<close>

subsection \<open>Sequencing\<close>

lemma bindE_Inr [simp]: "bindE (Inr x) f = f x"
  by (simp add: bindE_def)

lemma bindE_Inl [simp]: "bindE (Inl e) f = Inl e"
  by (simp add: bindE_def)

lemma bindE_eq_Inr: "bindE m f = Inr y \<longleftrightarrow> (\<exists>x. m = Inr x \<and> f x = Inr y)"
  by (cases m) simp_all

lemma bindE_eq_Inl: "bindE m f = Inl e \<longleftrightarrow> m = Inl e \<or> (\<exists>x. m = Inr x \<and> f x = Inl e)"
  by (cases m) simp_all

subsection \<open>Rounding to binary64\<close>

text \<open>
  The error of \<open>fl\<close>: half a unit in the last place, that is a relative error of at most
  \<open>2\<^sup>-\<^sup>5\<^sup>3\<close> above the subnormal range and an absolute error of at most \<open>2\<^sup>-\<^sup>1\<^sup>0\<^sup>7\<^sup>5\<close>
  in it.
\<close>

lemma pow2_powi: "pow2 e = 2 powi e"
  by (simp add: pow2_def power_int_def inverse_eq_divide power_one_over)

lemma pow2_pos: "0 < pow2 e"
  by (simp add: pow2_powi)

lemma pow2_add: "pow2 (a + b) = pow2 a * pow2 b"
  by (simp add: pow2_powi power_int_add)

lemma pow2_mono: "a \<le> b \<Longrightarrow> pow2 a \<le> pow2 b"
  by (simp add: pow2_powi power_int_increasing)

lemma pow2_less_iff: "pow2 a < pow2 b \<longleftrightarrow> a < b"
  using power_int_strict_increasing[of a b "2::rat"] power_int_increasing[of b a "2::rat"]
  by (auto simp: pow2_powi not_less[symmetric])

lemma round_half_even_error: "\<bar>of_int (round_half_even y) - y\<bar> \<le> 1 / 2"
proof -
  have "of_int \<lfloor>y\<rfloor> \<le> y" "y < of_int \<lfloor>y\<rfloor> + 1" by linarith+
  then show ?thesis unfolding round_half_even_def Let_def by (auto simp: abs_le_iff)
qed

lemma round_half_even_of_int: "round_half_even (of_int n) = n"
  by (simp add: round_half_even_def)

lemma pow2_of_nat: "0 \<le> e \<Longrightarrow> pow2 e = of_int (2 ^ nat e)"
  by (simp add: pow2_def)

lemma bitlen_pow2_bounds:
  assumes "0 < a"
  shows "pow2 (bitlen a - 1) \<le> of_int a" and "of_int a < pow2 (bitlen a)"
proof -
  have l: "1 \<le> bitlen a" using assms by (simp add: bitlen_alt_def)
  have ba: "2 ^ nat (bitlen a - 1) \<le> a" "a < 2 ^ nat (bitlen a)"
    using bitlen_bounds[OF assms] by blast+
  have "(of_int (2 ^ nat (bitlen a - 1)) :: rat) \<le> of_int a"
    using ba(1) by (simp only: of_int_le_iff)
  then show "pow2 (bitlen a - 1) \<le> of_int a"
    using l by (simp only: pow2_of_nat)
  have "(of_int a :: rat) < of_int (2 ^ nat (bitlen a))"
    using ba(2) by (simp only: of_int_less_iff)
  then show "of_int a < pow2 (bitlen a)"
    using l by (simp only: pow2_of_nat)
qed

lemma ilog2_bounds:
  assumes "x \<noteq> 0"
  shows "pow2 (ilog2 x) \<le> \<bar>x\<bar>" and "\<bar>x\<bar> < pow2 (ilog2 x + 1)"
proof -
  obtain a b where q: "quotient_of \<bar>x\<bar> = (a, b)" by (cases "quotient_of \<bar>x\<bar>")
  have b: "0 < b" using q quotient_of_denom_pos by blast
  have x: "\<bar>x\<bar> = of_int a / of_int b" using q quotient_of_div by blast
  have "0 < of_int a / (of_int b :: rat)" using assms x by (metis zero_less_abs_iff)
  then have a: "0 < a" using b by (simp add: zero_less_divide_iff)
  define d where "d = bitlen a - bitlen b"
  note pa = bitlen_pow2_bounds[OF a]
  note pb = bitlen_pow2_bounds[OF b]
  have rb: "0 < (of_int b :: rat)" using b by simp
  have e1: "pow2 (d + 1) * pow2 (bitlen b - 1) = pow2 (bitlen a)"
    unfolding pow2_add[symmetric] d_def by simp
  have e2: "pow2 (d - 1) * pow2 (bitlen b) = pow2 (bitlen a - 1)"
    unfolding pow2_add[symmetric] d_def by simp
  have up: "\<bar>x\<bar> < pow2 (d + 1)"
  proof -
    have "of_int a < pow2 (d + 1) * pow2 (bitlen b - 1)"
      using pa(2) e1 by simp
    also have "\<dots> \<le> pow2 (d + 1) * of_int b"
      by (rule mult_left_mono[OF pb(1)]) (rule less_imp_le[OF pow2_pos])
    finally have "of_int a / of_int b < pow2 (d + 1)"
      using rb by (simp add: pos_divide_less_eq)
    then show ?thesis by (simp only: x)
  qed
  have lo: "pow2 (d - 1) < \<bar>x\<bar>"
  proof -
    have "pow2 (d - 1) * of_int b < pow2 (d - 1) * pow2 (bitlen b)"
      by (rule mult_strict_left_mono[OF pb(2) pow2_pos])
    also have "\<dots> \<le> of_int a" using pa(1) e2 by simp
    finally have "pow2 (d - 1) < of_int a / of_int b"
      using rb by (simp add: pos_less_divide_eq)
    then show ?thesis by (simp only: x)
  qed
  have il: "ilog2 x = (if pow2 d \<le> \<bar>x\<bar> then d else d - 1)"
    by (simp add: ilog2_def q d_def)
  show "pow2 (ilog2 x) \<le> \<bar>x\<bar>"
    using lo by (simp add: il)
  show "\<bar>x\<bar> < pow2 (ilog2 x + 1)"
    using up by (auto simp add: il not_le)
qed

lemma fl_error_ulp:
  assumes "x \<noteq> 0"
  shows "\<bar>fl x - x\<bar> \<le> pow2 (max (ilog2 x) (- 1022) - 53)"
proof -
  define q where "q = pow2 (max (ilog2 x) (- 1022) - 52)"
  have q: "0 < q" by (simp add: q_def pow2_pos)
  have f: "fl x = of_int (round_half_even (x / q)) * q"
    using assms by (simp add: fl_def q_def Let_def)
  have "fl x - x = (of_int (round_half_even (x / q)) - x / q) * q"
    using q by (simp add: f algebra_simps)
  then have "\<bar>fl x - x\<bar> = \<bar>of_int (round_half_even (x / q)) - x / q\<bar> * q"
    using q by (simp add: abs_mult)
  also have "\<dots> \<le> (1 / 2) * q"
    by (rule mult_right_mono[OF round_half_even_error less_imp_le[OF q]])
  also have "\<dots> = pow2 (max (ilog2 x) (- 1022) - 53)"
  proof -
    have "pow2 (max (ilog2 x) (- 1022) - 52) = pow2 (max (ilog2 x) (- 1022) - 53 + 1)" by simp
    also have "\<dots> = pow2 (max (ilog2 x) (- 1022) - 53) * pow2 1" by (rule pow2_add)
    finally show ?thesis by (simp add: q_def pow2_def)
  qed
  finally show ?thesis .
qed

lemma fl_error:
  "\<bar>fl x - x\<bar> \<le> \<bar>x\<bar> / 2 ^ 53 + pow2 (- 1075)"
proof (cases "x = 0")
  case True
  then show ?thesis using pow2_pos[of "- 1075"] by (simp add: fl_def)
next
  case False
  show ?thesis
  proof (cases "ilog2 x \<le> - 1022")
    case True
    then have "max (ilog2 x) (- 1022) - 53 = - 1075" by simp
    then have "\<bar>fl x - x\<bar> \<le> pow2 (- 1075)" using fl_error_ulp[OF False] by simp
    moreover have "0 \<le> \<bar>x\<bar> / 2 ^ 53" by simp
    ultimately show ?thesis by linarith
  next
    case False
    then have m: "max (ilog2 x) (- 1022) - 53 = ilog2 x + (- 53)" by simp
    have "\<bar>fl x - x\<bar> \<le> pow2 (ilog2 x) * pow2 (- 53)"
      using fl_error_ulp[OF \<open>x \<noteq> 0\<close>] unfolding m pow2_add .
    also have "\<dots> \<le> \<bar>x\<bar> * pow2 (- 53)"
      by (rule mult_right_mono[OF ilog2_bounds(1)[OF \<open>x \<noteq> 0\<close>] less_imp_le[OF pow2_pos]])
    also have "\<dots> = \<bar>x\<bar> / 2 ^ 53" by (simp add: pow2_def)
    finally show ?thesis using pow2_pos[of "- 1075"] by linarith
  qed
qed

lemma fl_rel_error:
  assumes "pow2 (- 1022) \<le> \<bar>x\<bar>"
  shows "\<bar>fl x - x\<bar> \<le> \<bar>x\<bar> / 2 ^ 53"
proof -
  have x: "x \<noteq> 0" using assms pow2_pos[of "- 1022"] by auto
  have "pow2 (- 1022) < pow2 (ilog2 x + 1)"
    using assms ilog2_bounds(2)[OF x] by linarith
  then have "- 1022 < ilog2 x + 1" by (simp only: pow2_less_iff)
  then have m: "max (ilog2 x) (- 1022) - 53 = ilog2 x + (- 53)" by simp
  have "\<bar>fl x - x\<bar> \<le> pow2 (ilog2 x) * pow2 (- 53)"
    using fl_error_ulp[OF x] unfolding m pow2_add .
  also have "\<dots> \<le> \<bar>x\<bar> * pow2 (- 53)"
    by (rule mult_right_mono[OF ilog2_bounds(1)[OF x] less_imp_le[OF pow2_pos]])
  also have "\<dots> = \<bar>x\<bar> / 2 ^ 53" by (simp add: pow2_def)
  finally show ?thesis .
qed

lemma overflows_iff: "overflows y \<longleftrightarrow> 2 ^ 1024 \<le> \<bar>y\<bar>"
proof -
  have "(2 :: int) ^ 1024 \<le> \<lfloor>\<bar>y\<bar>\<rfloor> \<longleftrightarrow> of_int (2 ^ 1024) \<le> \<bar>y\<bar>"
    by (rule le_floor_iff)
  then show ?thesis by (simp add: overflows_def)
qed

lemma rate_values:
  "EMPLOYEE_CONTRIBUTION_RATE = Finite (1080863910568919 / 9007199254740992)"
  "EPS_CONTRIBUTION_RATE = Finite (6002397583359397 / 72057594037927936)"
  "EMPLOYER_CONTRIBUTION_RATE = Finite (5289027402383911 / 144115188075855872)"
  by code_simp+

lemma tau_small: "pow2 (- 1075) \<le> 1 / 2 ^ 60"
proof -
  have "pow2 (- 1075) \<le> pow2 (- 60)" by (rule pow2_mono) simp
  then show ?thesis by (simp add: pow2_def)
qed

lemma not_overflows_small: "\<bar>y\<bar> \<le> 2 ^ 41 \<Longrightarrow> \<not> overflows y"
proof -
  assume "\<bar>y\<bar> \<le> 2 ^ 41"
  moreover have "(2 :: rat) ^ 41 < 2 ^ 1024" by (rule power_strict_increasing) simp_all
  ultimately show ?thesis unfolding overflows_iff by linarith
qed

lemma mul_rate_error:
  assumes w: "0 \<le> w" "w \<le> 2 ^ 40"
    and r: "0 \<le> r" "r \<le> 1 / 8" "\<bar>r - \<rho>\<bar> \<le> 1 / 2 ^ 56" "0 \<le> \<rho>" "\<rho> \<le> 1 / 8"
  shows "\<exists>d. py_mul_float (PyInt w) (Finite r) = Inr (Finite d) \<and>
             \<bar>d - \<rho> * of_int w\<bar> < 1 / 10000"
proof -
  define a where "a = fl (of_int w)"
  define p where "p = a * r"
  define d where "d = fl p"
  have rw: "0 \<le> (of_int w :: rat)" "(of_int w :: rat) \<le> 2 ^ 40"
    using w by (simp, metis of_int_le_iff of_int_numeral of_int_power)
  have ea: "\<bar>a - of_int w\<bar> \<le> \<bar>of_int w\<bar> / 2 ^ 53 + pow2 (- 1075)"
    unfolding a_def by (rule fl_error)
  have ea': "\<bar>a - of_int w\<bar> \<le> 1 / 2 ^ 13 + 1 / 2 ^ 60"
    using ea rw tau_small by simp
  have c1: "(1 :: rat) / 2 ^ 13 + 1 / 2 ^ 60 \<le> 1" by simp
  have ab: "\<bar>a\<bar> \<le> 2 ^ 40 + 1" using ea' rw c1 by linarith
  have c0: "(2 :: rat) ^ 40 + 1 \<le> 2 ^ 41" by simp
  have oa: "\<not> overflows a" by (rule not_overflows_small) (use ab c0 in linarith)
  have pb: "\<bar>p\<bar> \<le> (2 ^ 40 + 1) * (1 / 8)"
    unfolding p_def abs_mult using ab r by (intro mult_mono) simp_all
  have ed: "\<bar>d - p\<bar> \<le> \<bar>p\<bar> / 2 ^ 53 + pow2 (- 1075)"
    unfolding d_def by (rule fl_error)
  have "\<bar>p\<bar> / 2 ^ 53 \<le> (2 ^ 40 + 1) * (1 / 8) / 2 ^ 53"
    by (rule divide_right_mono[OF pb]) simp
  then have ed': "\<bar>d - p\<bar> \<le> (2 ^ 40 + 1) * (1 / 8) / 2 ^ 53 + 1 / 2 ^ 60"
    using ed tau_small by linarith
  have c2: "((2 :: rat) ^ 40 + 1) * (1 / 8) / 2 ^ 53 + 1 / 2 ^ 60 + (2 ^ 40 + 1) * (1 / 8) \<le> 2 ^ 41"
    by simp
  have db: "\<bar>d\<bar> \<le> 2 ^ 41" using ed' pb c2 by linarith
  have od: "\<not> overflows d" by (rule not_overflows_small) (rule db)
  have t1: "\<bar>a * (r - \<rho>)\<bar> \<le> (2 ^ 40 + 1) * (1 / 2 ^ 56)"
    unfolding abs_mult using ab r by (intro mult_mono) simp_all
  have t2: "\<bar>\<rho> * (a - of_int w)\<bar> \<le> (1 / 8) * (1 / 2 ^ 13 + 1 / 2 ^ 60)"
    unfolding abs_mult using ea' r by (intro mult_mono) simp_all
  have "p - \<rho> * of_int w = a * (r - \<rho>) + \<rho> * (a - of_int w)"
    by (simp add: p_def algebra_simps)
  then have ep: "\<bar>p - \<rho> * of_int w\<bar> \<le> (2 ^ 40 + 1) * (1 / 2 ^ 56) + (1 / 8) * (1 / 2 ^ 13 + 1 / 2 ^ 60)"
    using t1 t2 by linarith
  have "\<bar>d - \<rho> * of_int w\<bar> \<le> \<bar>d - p\<bar> + \<bar>p - \<rho> * of_int w\<bar>" by linarith
  moreover have "((2 :: rat) ^ 40 + 1) * (1 / 8) / 2 ^ 53 + 1 / 2 ^ 60
      + ((2 ^ 40 + 1) * (1 / 2 ^ 56) + (1 / 8) * (1 / 2 ^ 13 + 1 / 2 ^ 60)) < 1 / 10000"
    by simp
  ultimately have fin: "\<bar>d - \<rho> * of_int w\<bar> < 1 / 10000" using ed' ep by linarith
  have "py_mul_float (PyInt w) (Finite r) = Inr (Finite d)"
    using oa od by (simp add: py_mul_float_def float_of_int_def bindE_def a_def[symmetric]
        float_of_rat_def p_def[symmetric] d_def[symmetric] Let_def)
  with fin show ?thesis by blast
qed

lemma nearest_on_grid:
  assumes "\<bar>d - of_int j / 10000\<bar> < 1 / 10000"
  shows "\<bar>of_int (round_half_even d) - of_int j / 10000\<bar> \<le> (1 / 2 :: rat)"
proof -
  define n where "n = round_half_even d"
  have "\<bar>of_int n - d\<bar> \<le> (1 / 2 :: rat)" unfolding n_def by (rule round_half_even_error)
  then have "\<bar>of_int n - of_int j / 10000\<bar> < (1 / 2 + 1 / 10000 :: rat)"
    using assms by linarith
  then have "\<bar>(of_int (10000 * n - j) :: rat)\<bar> < of_int 5001"
    by (simp add: abs_less_iff field_simps)
  then have "\<bar>10000 * n - j\<bar> < 5001"
    by (simp only: of_int_abs[symmetric] of_int_less_iff)
  then have "\<bar>10000 * n - j\<bar> \<le> 5000" by simp
  then have "\<bar>(of_int (10000 * n - j) :: rat)\<bar> \<le> of_int 5000"
    by (simp only: of_int_abs[symmetric] of_int_le_iff)
  then have "\<bar>of_int n - of_int j / 10000\<bar> \<le> (1 / 2 :: rat)"
    by (simp add: abs_le_iff field_simps)
  then show ?thesis by (simp only: n_def)
qed

lemma nearest_is_half_up:
  assumes "\<bar>of_int n - of_int j / 10000\<bar> \<le> (1 / 2 :: rat)" and "j mod 10000 \<noteq> 5000"
  shows "n = round_half_up (of_int j / 10000)"
proof -
  have ne1: "10000 * n - j \<noteq> 5000"
  proof
    assume "10000 * n - j = 5000"
    then have "j = 5000 + 10000 * (n - 1)" by simp
    then have "j mod 10000 = 5000 mod 10000" by (simp only: mod_mult_self2)
    with assms(2) show False by simp
  qed
  have ne2: "10000 * n - j \<noteq> - 5000"
  proof
    assume "10000 * n - j = - 5000"
    then have "j = 5000 + 10000 * n" by simp
    then have "j mod 10000 = 5000 mod 10000" by (simp only: mod_mult_self2)
    with assms(2) show False by simp
  qed
  have "\<bar>(of_int (10000 * n - j) :: rat)\<bar> \<le> of_int 5000"
    using assms(1) by (simp add: abs_le_iff field_simps)
  then have "\<bar>10000 * n - j\<bar> \<le> 5000"
    by (simp only: of_int_abs[symmetric] of_int_le_iff)
  with ne1 ne2 have "\<bar>10000 * n - j\<bar> < 5000" by linarith
  then have "\<bar>(of_int (10000 * n - j) :: rat)\<bar> < of_int 5000"
    by (simp only: of_int_abs[symmetric] of_int_less_iff)
  then have "\<bar>of_int n - of_int j / 10000\<bar> < (1 / 2 :: rat)"
    by (simp add: abs_less_iff field_simps)
  then have "of_int n \<le> of_int j / 10000 + (1 / 2 :: rat)"
    and "of_int j / 10000 + (1 / 2 :: rat) < of_int n + 1" by linarith+
  then have "\<lfloor>of_int j / 10000 + (1 / 2 :: rat)\<rfloor> = n" by (rule floor_unique)
  then show ?thesis by (simp add: round_half_up_def)
qed

lemma no_tie_employee: "(1200 * w) mod 10000 \<noteq> (5000 :: int)"
proof
  assume "(1200 * w) mod 10000 = 5000"
  then have "(1200 * w) mod 10000 = 5000 mod 10000" by simp
  then have "10000 dvd 1200 * w - 5000" by (simp only: mod_eq_dvd_iff)
  moreover have "(400 :: int) dvd 10000" by simp
  ultimately have "400 dvd 1200 * w - 5000" by (rule dvd_trans[rotated])
  moreover have "400 dvd 1200 * w" by simp
  ultimately have "400 dvd 1200 * w - (1200 * w - 5000)" by (rule dvd_diff[rotated])
  then show False by simp
qed

lemma tie_iff:
  assumes inv: "(k * c) mod 10000 = (1 :: int)"
    and c: "(c * 5000) mod 10000 = 5000" and k: "(k * 5000) mod 10000 = 5000"
  shows "(c * w) mod 10000 = 5000 \<longleftrightarrow> w mod 10000 = 5000"
proof
  assume h: "w mod 10000 = 5000"
  have "(c * w) mod 10000 = (c * (w mod 10000)) mod 10000" by (simp only: mod_mult_right_eq)
  then show "(c * w) mod 10000 = 5000" by (simp only: h c)
next
  assume h: "(c * w) mod 10000 = 5000"
  have "w mod 10000 = (((k * c) mod 10000) * w) mod 10000" by (simp only: inv mult_1)
  also have "\<dots> = (k * c * w) mod 10000" by (simp only: mod_mult_left_eq)
  also have "\<dots> = (k * (c * w)) mod 10000" by (simp only: mult.assoc)
  also have "\<dots> = (k * ((c * w) mod 10000)) mod 10000" by (simp only: mod_mult_right_eq)
  also have "\<dots> = 5000" by (simp only: h k)
  finally show "w mod 10000 = 5000" .
qed

lemma tie_iff_367: "(367 * w) mod 10000 = (5000 :: int) \<longleftrightarrow> w mod 10000 = 5000"
  by (rule tie_iff[of 6703]) simp_all

lemma tie_iff_833: "(833 * w) mod 10000 = (5000 :: int) \<longleftrightarrow> w mod 10000 = 5000"
  by (rule tie_iff[of 2497]) simp_all

lemma rounded_product:
  assumes w: "0 \<le> w" "w \<le> 2 ^ 40"
    and r: "0 \<le> r" "r \<le> 1 / 8" "\<bar>r - of_int c / 10000\<bar> \<le> 1 / 2 ^ 56" "0 \<le> c" "c \<le> 1250"
  shows "\<exists>n. bindE (py_mul_float (PyInt w) (Finite r)) py_round = Inr n \<and>
             \<bar>of_int n - of_int (c * w) / 10000\<bar> \<le> (1 / 2 :: rat) \<and>
             ((c * w) mod 10000 \<noteq> 5000 \<longrightarrow> n = round_half_up (of_int (c * w) / 10000))"
proof -
  have c1: "0 \<le> (of_int c / 10000 :: rat)" using r(4) by simp
  have "(of_int c :: rat) \<le> of_int 1250" using r(5) by (simp only: of_int_le_iff)
  then have c2: "(of_int c / 10000 :: rat) \<le> 1 / 8" by simp
  obtain d where d: "py_mul_float (PyInt w) (Finite r) = Inr (Finite d)"
    and e: "\<bar>d - of_int c / 10000 * of_int w\<bar> < 1 / 10000"
    using mul_rate_error[OF w r(1) r(2) r(3) c1 c2] by blast
  have e': "\<bar>d - of_int (c * w) / 10000\<bar> < 1 / 10000" using e by simp
  have n: "\<bar>of_int (round_half_even d) - of_int (c * w) / 10000\<bar> \<le> (1 / 2 :: rat)"
    by (rule nearest_on_grid[OF e'])
  have "bindE (py_mul_float (PyInt w) (Finite r)) py_round = Inr (round_half_even d)"
    by (simp add: d bindE_def py_round_def)
  with n nearest_is_half_up[OF n] show ?thesis by blast
qed

subsection \<open>Contribution engine\<close>

text \<open>
  C6. \<^verbatim>\<open>calculate_contributions\<close> returns exactly \<open>(1200, 367, 833)\<close> for the wage 10000,
  \<open>(0, 0, 0)\<close> for the wage 0 and \<open>(1200, 367, 833)\<close> for the wage 10001, in the order
  employee share, employer share, pension share.
\<close>

theorem calculate_contributions_examples:
  "calculate_contributions (PyInt 10000) = Inr (1200, 367, 833) \<and>
   calculate_contributions (PyInt 0) = Inr (0, 0, 0) \<and>
   calculate_contributions (PyInt 10001) = Inr (1200, 367, 833)"
  by code_simp

lemma rate_facts:
  "0 \<le> (1080863910568919 / 9007199254740992 :: rat)"
  "(1080863910568919 / 9007199254740992 :: rat) \<le> 1 / 8"
  "\<bar>1080863910568919 / 9007199254740992 - of_int 1200 / 10000\<bar> \<le> (1 / 2 ^ 56 :: rat)"
  "0 \<le> (6002397583359397 / 72057594037927936 :: rat)"
  "(6002397583359397 / 72057594037927936 :: rat) \<le> 1 / 8"
  "\<bar>6002397583359397 / 72057594037927936 - of_int 833 / 10000\<bar> \<le> (1 / 2 ^ 56 :: rat)"
  "0 \<le> (5289027402383911 / 144115188075855872 :: rat)"
  "(5289027402383911 / 144115188075855872 :: rat) \<le> 1 / 8"
  "\<bar>5289027402383911 / 144115188075855872 - of_int 367 / 10000\<bar> \<le> (1 / 2 ^ 56 :: rat)"
  by simp_all

text \<open>
  C1, as the program has it. For every integer wage from 0 to \<open>2\<^sup>4\<^sup>0\<close>,
  \<open>calculate_contributions\<close> returns the triple of the employee, employer and pension
  shares, each obtained from its own product of rate and wage, none from the other two:
  the employee share is 12 per cent of the wage rounded half up (that product is never
  halfway between two integers), and the employer and pension shares are whole numbers
  nearest to 3.67 and 8.33 per cent of the wage, equal to the product rounded half up
  unless the product is exactly halfway, which happens when the wage leaves the
  remainder 5000 modulo 10000.
\<close>

theorem calculate_contributions_nearest:
  assumes "0 \<le> wage" and "wage \<le> 2 ^ 40"
  shows "\<exists>employee employer eps.
           calculate_contributions (PyInt wage) = Inr (employee, employer, eps) \<and>
           employee = round_half_up (12 / 100 * of_int wage) \<and>
           \<bar>of_int employer - 367 / 10000 * of_int wage\<bar> \<le> (1 / 2 :: rat) \<and>
           \<bar>of_int eps - 833 / 10000 * of_int wage\<bar> \<le> (1 / 2 :: rat) \<and>
           (wage mod 10000 \<noteq> 5000 \<longrightarrow>
              employer = round_half_up (367 / 10000 * of_int wage) \<and>
              eps = round_half_up (833 / 10000 * of_int wage))"
proof -
  obtain employee where
    e1: "bindE (py_mul_float (PyInt wage) EMPLOYEE_CONTRIBUTION_RATE) py_round = Inr employee"
    and e2: "(1200 * wage) mod 10000 \<noteq> 5000 \<longrightarrow>
               employee = round_half_up (of_int (1200 * wage) / 10000)"
    unfolding rate_values
    using rounded_product[OF assms rate_facts(1) rate_facts(2) rate_facts(3)] by auto
  obtain eps where
    p1: "bindE (py_mul_float (PyInt wage) EPS_CONTRIBUTION_RATE) py_round = Inr eps"
    and p2: "\<bar>of_int eps - of_int (833 * wage) / 10000\<bar> \<le> (1 / 2 :: rat)"
    and p3: "(833 * wage) mod 10000 \<noteq> 5000 \<longrightarrow>
               eps = round_half_up (of_int (833 * wage) / 10000)"
    unfolding rate_values
    using rounded_product[OF assms rate_facts(4) rate_facts(5) rate_facts(6)] by auto
  obtain employer where
    r1: "bindE (py_mul_float (PyInt wage) EMPLOYER_CONTRIBUTION_RATE) py_round = Inr employer"
    and r2: "\<bar>of_int employer - of_int (367 * wage) / 10000\<bar> \<le> (1 / 2 :: rat)"
    and r3: "(367 * wage) mod 10000 \<noteq> 5000 \<longrightarrow>
               employer = round_half_up (of_int (367 * wage) / 10000)"
    unfolding rate_values
    using rounded_product[OF assms rate_facts(7) rate_facts(8) rate_facts(9)] by auto
  have c: "calculate_contributions (PyInt wage) = Inr (employee, employer, eps)"
    by (simp add: calculate_contributions_def e1 p1 r1)
  have x1: "(of_int (1200 * wage) / 10000 :: rat) = 12 / 100 * of_int wage" by simp
  have x2: "(of_int (833 * wage) / 10000 :: rat) = 833 / 10000 * of_int wage" by simp
  have x3: "(of_int (367 * wage) / 10000 :: rat) = 367 / 10000 * of_int wage" by simp
  have "employee = round_half_up (12 / 100 * of_int wage)"
    using e2 no_tie_employee[of wage] unfolding x1 by blast
  moreover have "\<bar>of_int employer - 367 / 10000 * of_int wage\<bar> \<le> (1 / 2 :: rat)"
    using r2 by (simp only: x3)
  moreover have "\<bar>of_int eps - 833 / 10000 * of_int wage\<bar> \<le> (1 / 2 :: rat)"
    using p2 by (simp only: x2)
  moreover have "wage mod 10000 \<noteq> 5000 \<longrightarrow>
      employer = round_half_up (367 / 10000 * of_int wage) \<and>
      eps = round_half_up (833 / 10000 * of_int wage)"
    using r3 p3 unfolding x2 x3 tie_iff_367 tie_iff_833 by blast
  ultimately show ?thesis using c by blast
qed

text \<open>The theorem at the wage 15500.\<close>

theorem calculate_contributions_nearest_witness:
  "\<exists>employee employer eps.
     calculate_contributions (PyInt 15500) = Inr (employee, employer, eps) \<and>
     employee = round_half_up (12 / 100 * of_int 15500) \<and>
     \<bar>of_int employer - 367 / 10000 * of_int 15500\<bar> \<le> (1 / 2 :: rat) \<and>
     \<bar>of_int eps - 833 / 10000 * of_int 15500\<bar> \<le> (1 / 2 :: rat) \<and>
     ((15500 :: int) mod 10000 \<noteq> 5000 \<longrightarrow>
        employer = round_half_up (367 / 10000 * of_int 15500) \<and>
        eps = round_half_up (833 / 10000 * of_int 15500))"
  by (rule calculate_contributions_nearest[of 15500]) simp_all

text \<open>
  The rule of the specification, a half always going up, fails at the wage 5000: 8.33
  per cent of it is 416.5, the product of the two floats is 416.5 as well, and
  \<^verbatim>\<open>round\<close> takes it to the even neighbour 416, not to 417.
\<close>

theorem calculate_contributions_half_up_counterexample:
  "calculate_contributions (PyInt 5000) = Inr (600, 184, 416) \<and>
   contributions_half_up 5000 = (600, 184, 417)"
  by code_simp

subsection \<open>Balance and interest engine\<close>

text \<open>
  The loop of \<open>calculate_monthly_balances\<close> in closed form: after \<open>n\<close> rounds the running
  balance is the opening balance plus the first \<open>n\<close> contributions less the first \<open>n\<close>
  withdrawals, and the series holds the running balances of the rounds \<open>0\<close> to \<open>n\<close>.
\<close>

lemma for_loop_append:
  "for_loop body (xs @ ys) st = bindE (for_loop body xs st) (for_loop body ys)"
  by (induction xs arbitrary: st) (simp_all add: bindE_def split: sum.splits)

lemma for_loop_snoc:
  "for_loop body (xs @ [x]) st = bindE (for_loop body xs st) (body x)"
  by (simp add: for_loop_append bindE_def split: sum.splits)

lemma py_index_Inr [simp]: "i < length xs \<Longrightarrow> py_index xs i = Inr (xs ! i)"
  by (simp add: py_index_def)

lemma py_index_Inl [simp]: "length xs \<le> i \<Longrightarrow> py_index xs i = Inl IndexError"
  by (simp add: py_index_def)

lemma sum_list_take_Suc:
  "k < length xs \<Longrightarrow> sum_list (take (Suc k) xs) = sum_list (take k xs) + (xs ! k :: int)"
  by (simp add: take_Suc_conv_app_nth)

lemma balance_loop:
  assumes "n \<le> length ee_contributions" "n \<le> length ee_withdrawals"
    "n \<le> length er_contributions" "n \<le> length er_withdrawals"
  shows "for_loop (balance_step ee_contributions er_contributions ee_withdrawals er_withdrawals)
           [0 ..< n] (ob_ee, ob_er, [ob_ee], [ob_er]) =
         Inr (ob_ee + sum_list (take n ee_contributions) - sum_list (take n ee_withdrawals),
              ob_er + sum_list (take n er_contributions) - sum_list (take n er_withdrawals),
              map (\<lambda>j. ob_ee + sum_list (take j ee_contributions) - sum_list (take j ee_withdrawals))
                [0 ..< Suc n],
              map (\<lambda>j. ob_er + sum_list (take j er_contributions) - sum_list (take j er_withdrawals))
                [0 ..< Suc n])"
    (is "for_loop ?B [0 ..< n] ?init = Inr (?S n)")
  using assms
proof (induction n)
  case 0
  show ?case by simp
next
  case (Suc n)
  then have l: "n < length ee_contributions" "n < length ee_withdrawals"
    "n < length er_contributions" "n < length er_withdrawals" by simp_all
  have ih: "for_loop ?B [0 ..< n] ?init = Inr (?S n)"
    using Suc by simp
  have s1: "for_loop ?B [0 ..< Suc n] ?init = bindE (for_loop ?B [0 ..< n] ?init) (?B n)"
    by (simp add: for_loop_snoc)
  have s2: "?B n (?S n) = Inr (?S (Suc n))"
    by (simp add: balance_step_def l sum_list_take_Suc algebra_simps)
  show ?case by (simp only: s1 ih bindE_Inr s2)
qed


lemma calculate_monthly_balances_eq:
  assumes "length ee_contributions - 1 \<le> length ee_withdrawals"
    "length ee_contributions - 1 \<le> length er_contributions"
    "length ee_contributions - 1 \<le> length er_withdrawals"
  shows "calculate_monthly_balances ob_ee ob_er ee_contributions er_contributions
           ee_withdrawals er_withdrawals rate =
         bindE (interest
            (sum_list (map (\<lambda>j. ob_ee + sum_list (take j ee_contributions) - sum_list (take j ee_withdrawals))
               [0 ..< Suc (length ee_contributions - 1)]))
            (sum_list ee_withdrawals) rate) (\<lambda>ee_interest.
         bindE (interest
            (sum_list (map (\<lambda>j. ob_er + sum_list (take j er_contributions) - sum_list (take j er_withdrawals))
               [0 ..< Suc (length ee_contributions - 1)]))
            (sum_list er_withdrawals) rate) (\<lambda>er_interest.
         Inr (map (\<lambda>j. ob_ee + sum_list (take j ee_contributions) - sum_list (take j ee_withdrawals))
                [0 ..< Suc (length ee_contributions - 1)],
              map (\<lambda>j. ob_er + sum_list (take j er_contributions) - sum_list (take j er_withdrawals))
                [0 ..< Suc (length ee_contributions - 1)],
              ee_interest, er_interest)))"
proof -
  have "length ee_contributions - 1 \<le> length ee_contributions" by simp
  note loop = balance_loop[OF this assms(1) assms(2) assms(3), of ob_ee ob_er]
  show ?thesis
    unfolding calculate_monthly_balances_def loop bindE_Inr by simp
qed

lemma series_nth:
  assumes "i \<le> n"
  shows "map (\<lambda>j. ob + sum_list (take j cs) - sum_list (take j ws)) [0 ..< Suc n] ! i =
         ob + sum_list (take i cs) - (sum_list (take i ws) :: int)"
proof -
  have "i < Suc n - 0" using assms by simp
  then have "map (\<lambda>j. ob + sum_list (take j cs) - sum_list (take j ws)) [0 ..< Suc n] ! i =
      ob + sum_list (take (0 + i) cs) - sum_list (take (0 + i) ws)"
    by (rule nth_map_upt)
  then show ?thesis by simp
qed

lemma series_step:
  assumes "1 \<le> i" "i \<le> n" "n \<le> length cs" "n \<le> length ws"
  shows "map (\<lambda>j. ob + sum_list (take j cs) - sum_list (take j ws)) [0 ..< Suc n] ! i =
         map (\<lambda>j. ob + sum_list (take j cs) - sum_list (take j ws)) [0 ..< Suc n] ! (i - 1)
           + cs ! (i - 1) - (ws ! (i - 1) :: int)"
proof -
  obtain k where k: "i = Suc k" using assms(1) by (cases i) simp_all
  have l: "k < length cs" "k < length ws" "k \<le> n" using assms k by simp_all
  have a: "map (\<lambda>j. ob + sum_list (take j cs) - sum_list (take j ws)) [0 ..< Suc n] ! i =
      ob + sum_list (take (Suc k) cs) - sum_list (take (Suc k) ws)"
    using series_nth[OF assms(2)] by (simp only: k)
  have c: "i - 1 = k" using k by simp
  show ?thesis
    unfolding c a series_nth[OF l(3)] by (simp add: sum_list_take_Suc l)
qed

lemma float_of_int_divisor: "float_of_int INTEREST_DIVISOR = Inr (Finite 1200)"
  by code_simp

lemma interest_eq:
  "interest sum_balances total_withdrawals rate =
     bindE (float_of_int (sum_balances - total_withdrawals)) (\<lambda>net.
       bindE (float_div (float_mul net rate) (Finite 1200)) py_round)"
  by (simp add: interest_def float_of_int_divisor)

lemma interest_errors:
  "interest sum_balances total_withdrawals rate = Inl e \<Longrightarrow> e = OverflowError \<or> e = ValueError"
  unfolding interest_eq
  by (auto simp: bindE_eq_Inl float_of_int_def py_round_def Let_def
      split: if_splits pyfloat.splits)

text \<open>
  When the interest is produced. A float operation overflows only when the magnitude of
  its exact result is about \<open>2\<^sup>1\<^sup>0\<^sup>2\<^sup>3\<close> or more, so for a finite rate and a net amount of
  at most \<open>2\<^sup>4\<^sup>0\<^sup>0\<close> in magnitude the three operations of the interest stay finite, and
  the rounded result is within a relative \<open>2\<^sup>-\<^sup>5\<^sup>0\<close> of a nearest integer to the exact
  value.
\<close>

lemma fl_abs_le: "\<bar>fl x\<bar> \<le> 2 * \<bar>x\<bar> + 1"
proof -
  have "\<bar>fl x - x\<bar> \<le> \<bar>x\<bar> / 2 ^ 53 + pow2 (- 1075)" by (rule fl_error)
  moreover have "\<bar>x\<bar> / 2 ^ 53 \<le> \<bar>x\<bar> / 1" by (rule divide_left_mono) simp_all
  moreover have "pow2 (- 1075) \<le> 1" using tau_small by simp
  ultimately show ?thesis by simp
qed

lemma not_overflows: "\<bar>y\<bar> < 2 ^ 1024 \<Longrightarrow> \<not> overflows y"
  by (simp add: overflows_iff)

lemma float_of_rat_finite: "2 * \<bar>x\<bar> + 1 < 2 ^ 1024 \<Longrightarrow> float_of_rat x = Finite (fl x)"
proof -
  assume "2 * \<bar>x\<bar> + 1 < 2 ^ 1024"
  then have "\<bar>fl x\<bar> < 2 ^ 1024" using fl_abs_le[of x] by linarith
  then show ?thesis by (simp add: float_of_rat_def not_overflows)
qed

lemma float_of_int_finite:
  "2 * \<bar>of_int n :: rat\<bar> + 1 < 2 ^ 1024 \<Longrightarrow> float_of_int n = Inr (Finite (fl (of_int n)))"
proof -
  assume "2 * \<bar>of_int n :: rat\<bar> + 1 < 2 ^ 1024"
  then have "\<bar>fl (of_int n)\<bar> < 2 ^ 1024" using fl_abs_le[of "of_int n"] by linarith
  then show ?thesis by (simp add: float_of_int_def not_overflows)
qed


lemma fl_abs_bound: "\<bar>x\<bar> \<le> b \<Longrightarrow> \<bar>fl x\<bar> \<le> 2 * b + 1"
  using fl_abs_le[of x] by linarith

lemma float_of_rat_bounded:
  "\<bar>x\<bar> \<le> b \<Longrightarrow> 2 * b + 1 < 2 ^ 1024 \<Longrightarrow> float_of_rat x = Finite (fl x)"
  using float_of_rat_finite[of x] by linarith

lemma float_of_int_bounded:
  "\<bar>of_int n :: rat\<bar> \<le> b \<Longrightarrow> 2 * b + 1 < 2 ^ 1024 \<Longrightarrow>
     float_of_int n = Inr (Finite (fl (of_int n)))"
  using float_of_int_finite[of n] by linarith

lemma interest_value:
  assumes "\<bar>of_int (sum_balances - total_withdrawals) :: rat\<bar> \<le> 2 ^ 400" and "\<bar>r\<bar> \<le> 2 ^ 400"
  shows "interest sum_balances total_withdrawals (Finite r) =
         Inr (round_half_even (fl (fl (fl (of_int (sum_balances - total_withdrawals)) * r) / 1200)))"
proof -
  let ?N = "of_int (sum_balances - total_withdrawals) :: rat"
  let ?a = "fl ?N"
  let ?p = "fl (?a * r)"
  have k0: "2 * (2 :: rat) ^ 400 + 1 < 2 ^ 1024" by simp
  have k1: "2 * ((2 * (2 :: rat) ^ 400 + 1) * 2 ^ 400) + 1 < 2 ^ 1024" by simp
  have k2: "2 * (2 * ((2 * (2 :: rat) ^ 400 + 1) * 2 ^ 400) + 1) + 1 < 2 ^ 1024" by simp
  have fa: "float_of_int (sum_balances - total_withdrawals) = Inr (Finite ?a)"
    by (rule float_of_int_bounded[OF assms(1) k0])
  have ab: "\<bar>?a\<bar> \<le> 2 * 2 ^ 400 + 1" by (rule fl_abs_bound[OF assms(1)])
  have "\<bar>?a * r\<bar> = \<bar>?a\<bar> * \<bar>r\<bar>" by (rule abs_mult)
  also have "\<dots> \<le> (2 * 2 ^ 400 + 1) * 2 ^ 400"
    by (rule mult_mono[OF ab assms(2)]) simp_all
  finally have arb: "\<bar>?a * r\<bar> \<le> (2 * 2 ^ 400 + 1) * 2 ^ 400" .
  have fm: "float_mul (Finite ?a) (Finite r) = Finite ?p"
    unfolding float_mul.simps by (rule float_of_rat_bounded[OF arb k1])
  have pb: "\<bar>?p\<bar> \<le> 2 * ((2 * 2 ^ 400 + 1) * 2 ^ 400) + 1" by (rule fl_abs_bound[OF arb])
  have "\<bar>?p / 1200\<bar> \<le> \<bar>?p\<bar>" by simp
  then have qb: "\<bar>?p / 1200\<bar> \<le> 2 * ((2 * 2 ^ 400 + 1) * 2 ^ 400) + 1"
    using pb by (rule order_trans)
  have "float_of_rat (?p / 1200) = Finite (fl (?p / 1200))"
    by (rule float_of_rat_bounded[OF qb k2])
  then have fd: "float_div (Finite ?p) (Finite 1200) = Inr (Finite (fl (?p / 1200)))"
    by simp
  show ?thesis
    unfolding interest_eq fa bindE_Inr fm fd by (simp add: py_round_def)
qed





lemma abs_sum_list_le:
  "\<forall>x \<in> set xs. \<bar>x\<bar> \<le> B \<Longrightarrow> \<bar>sum_list xs\<bar> \<le> int (length xs) * (B :: int)"
proof (induction xs)
  case Nil
  show ?case by simp
next
  case (Cons x xs)
  then have "\<bar>x\<bar> \<le> B" "\<bar>sum_list xs\<bar> \<le> int (length xs) * B" by simp_all
  moreover have "int (length (x # xs)) * B = B + int (length xs) * B" by (simp add: algebra_simps)
  ultimately show ?case by simp
qed

lemma abs_sum_take_le:
  assumes "\<forall>x \<in> set xs. \<bar>x\<bar> \<le> 2 ^ 64" and "length xs \<le> 2 ^ 32"
  shows "\<bar>sum_list (take j xs)\<bar> \<le> (2 ^ 96 :: int)"
proof -
  have "\<forall>x \<in> set (take j xs). \<bar>x\<bar> \<le> 2 ^ 64" using assms(1) by (meson in_set_takeD)
  then have "\<bar>sum_list (take j xs)\<bar> \<le> int (length (take j xs)) * 2 ^ 64" by (rule abs_sum_list_le)
  moreover have "int (length (take j xs)) \<le> 2 ^ 32" using assms(2) by simp
  ultimately show ?thesis by simp
qed

lemma net_bound:
  assumes "\<bar>ob\<bar> \<le> 2 ^ 64" and "\<forall>x \<in> set cs. \<bar>x\<bar> \<le> 2 ^ 64" and "\<forall>x \<in> set ws. \<bar>x\<bar> \<le> 2 ^ 64"
    and "length cs \<le> 2 ^ 32" and "length ws \<le> 2 ^ 32" and "m \<le> 2 ^ 32"
  shows "\<bar>of_int (sum_list (map (\<lambda>j. ob + sum_list (take j cs) - sum_list (take j ws)) [0 ..< Suc m])
             - sum_list ws) :: rat\<bar> \<le> 2 ^ 400"
proof -
  have el: "\<forall>x \<in> set (map (\<lambda>j. ob + sum_list (take j cs) - sum_list (take j ws)) [0 ..< Suc m]).
      \<bar>x\<bar> \<le> 2 ^ 98"
  proof
    fix x
    assume "x \<in> set (map (\<lambda>j. ob + sum_list (take j cs) - sum_list (take j ws)) [0 ..< Suc m])"
    then obtain j where x: "x = ob + sum_list (take j cs) - sum_list (take j ws)" by auto
    show "\<bar>x\<bar> \<le> 2 ^ 98"
      using assms(1) abs_sum_take_le[OF assms(2) assms(4), of j]
        abs_sum_take_le[OF assms(3) assms(5), of j]
      unfolding x by simp
  qed
  have "\<bar>sum_list (map (\<lambda>j. ob + sum_list (take j cs) - sum_list (take j ws)) [0 ..< Suc m])\<bar>
      \<le> int (length (map (\<lambda>j. ob + sum_list (take j cs) - sum_list (take j ws)) [0 ..< Suc m])) * 2 ^ 98"
    by (rule abs_sum_list_le[OF el])
  moreover have "int (length (map (\<lambda>j. ob + sum_list (take j cs) - sum_list (take j ws)) [0 ..< Suc m]))
      \<le> 2 ^ 32 + 1"
    using assms(6) by simp
  ultimately have s: "\<bar>sum_list (map (\<lambda>j. ob + sum_list (take j cs) - sum_list (take j ws)) [0 ..< Suc m])\<bar>
      \<le> (2 ^ 32 + 1) * 2 ^ 98"
    by simp
  have w: "\<bar>sum_list ws\<bar> \<le> 2 ^ 96"
    using abs_sum_take_le[OF assms(3) assms(5), of "length ws"] by simp
  have "\<bar>sum_list (map (\<lambda>j. ob + sum_list (take j cs) - sum_list (take j ws)) [0 ..< Suc m])
             - sum_list ws\<bar> \<le> 2 ^ 400"
    using s w by simp
  then have "(of_int \<bar>sum_list (map (\<lambda>j. ob + sum_list (take j cs) - sum_list (take j ws)) [0 ..< Suc m])
             - sum_list ws\<bar> :: rat) \<le> of_int (2 ^ 400)"
    by (simp only: of_int_le_iff)
  then show ?thesis by simp
qed

text \<open>
  Return on bounded input. With four lists of the same length, at most \<open>2\<^sup>3\<^sup>2\<close> months,
  opening balances and monthly amounts of at most \<open>2\<^sup>6\<^sup>4\<close> in magnitude and a finite rate
  of at most \<open>2\<^sup>6\<^sup>4\<close> in magnitude, \<open>calculate_monthly_balances\<close> returns: the two series
  of running balances and the two interests, each the rounded float quotient.
\<close>

lemma calculate_monthly_balances_bounded:
  assumes len: "length er_contributions = length ee_contributions"
      "length ee_withdrawals = length ee_contributions"
      "length er_withdrawals = length ee_contributions"
      "length ee_contributions \<le> 2 ^ 32"
    and ob: "\<bar>ob_ee\<bar> \<le> 2 ^ 64" "\<bar>ob_er\<bar> \<le> 2 ^ 64"
    and am: "\<forall>x \<in> set ee_contributions. \<bar>x\<bar> \<le> 2 ^ 64"
      "\<forall>x \<in> set er_contributions. \<bar>x\<bar> \<le> 2 ^ 64"
      "\<forall>x \<in> set ee_withdrawals. \<bar>x\<bar> \<le> 2 ^ 64"
      "\<forall>x \<in> set er_withdrawals. \<bar>x\<bar> \<le> 2 ^ 64"
    and r: "\<bar>r\<bar> \<le> 2 ^ 64"
  shows "calculate_monthly_balances ob_ee ob_er ee_contributions er_contributions
           ee_withdrawals er_withdrawals (Finite r) =
         Inr (map (\<lambda>j. ob_ee + sum_list (take j ee_contributions) - sum_list (take j ee_withdrawals))
                [0 ..< Suc (length ee_contributions - 1)],
              map (\<lambda>j. ob_er + sum_list (take j er_contributions) - sum_list (take j er_withdrawals))
                [0 ..< Suc (length ee_contributions - 1)],
              round_half_even (fl (fl (fl (of_int
                (sum_list (map (\<lambda>j. ob_ee + sum_list (take j ee_contributions) - sum_list (take j ee_withdrawals))
                   [0 ..< Suc (length ee_contributions - 1)]) - sum_list ee_withdrawals)) * r) / 1200)),
              round_half_even (fl (fl (fl (of_int
                (sum_list (map (\<lambda>j. ob_er + sum_list (take j er_contributions) - sum_list (take j er_withdrawals))
                   [0 ..< Suc (length ee_contributions - 1)]) - sum_list er_withdrawals)) * r) / 1200)))"
proof -
  have le: "length ee_contributions - 1 \<le> length ee_withdrawals"
    "length ee_contributions - 1 \<le> length er_contributions"
    "length ee_contributions - 1 \<le> length er_withdrawals"
    using len by simp_all
  have m: "length ee_contributions - 1 \<le> 2 ^ 32" using len(4) by simp
  have l: "length er_contributions \<le> 2 ^ 32" "length ee_withdrawals \<le> 2 ^ 32"
    "length er_withdrawals \<le> 2 ^ 32"
    using len by simp_all
  have "(2 :: rat) ^ 64 \<le> 2 ^ 400" by (rule power_increasing) simp_all
  then have r': "\<bar>r\<bar> \<le> 2 ^ 400" using r by linarith
  note ne = net_bound[OF ob(1) am(1) am(3) len(4) l(2) m]
  note nr = net_bound[OF ob(2) am(2) am(4) l(1) l(3) m]
  show ?thesis
    unfolding calculate_monthly_balances_eq[OF le] interest_value[OF ne r'] interest_value[OF nr r']
    by simp
qed


text \<open>
  C2. For twelve-element contribution and withdrawal lists, opening balances and monthly
  amounts of at most \<open>2\<^sup>6\<^sup>4\<close> in magnitude and a finite rate of at most \<open>2\<^sup>6\<^sup>4\<close> in
  magnitude, \<open>calculate_monthly_balances\<close> returns, and the balance series it returns for
  each fund share has exactly twelve entries, the first is the opening balance, and every
  later entry is its predecessor plus the contribution less the withdrawal of the
  preceding month. The last entry is therefore the opening balance plus the first eleven
  contributions less the first eleven withdrawals: the twelfth month's contribution and
  withdrawal are not in the series. The same holds of the series of every call on
  twelve-element lists that returns, whatever the rate and the amounts.
\<close>

theorem monthly_balance_series:
  assumes "length ee_contributions = 12" and "length er_contributions = 12"
    and "length ee_withdrawals = 12" and "length er_withdrawals = 12"
  shows "(\<bar>ob_ee\<bar> \<le> 2 ^ 64 \<and> \<bar>ob_er\<bar> \<le> 2 ^ 64 \<and> \<bar>r\<bar> \<le> 2 ^ 64 \<and>
          (\<forall>x \<in> set ee_contributions \<union> set er_contributions \<union> set ee_withdrawals
                 \<union> set er_withdrawals. \<bar>x\<bar> \<le> 2 ^ 64) \<longrightarrow>
          (\<exists>ee_balances er_balances ee_interest er_interest.
             calculate_monthly_balances ob_ee ob_er ee_contributions er_contributions
               ee_withdrawals er_withdrawals (Finite r) =
             Inr (ee_balances, er_balances, ee_interest, er_interest) \<and>
             length ee_balances = 12 \<and> ee_balances ! 0 = ob_ee \<and>
             (\<forall>i. 1 \<le> i \<and> i \<le> 11 \<longrightarrow>
                ee_balances ! i = ee_balances ! (i - 1) + ee_contributions ! (i - 1) - ee_withdrawals ! (i - 1)) \<and>
             ee_balances ! 11 = ob_ee + sum_list (take 11 ee_contributions) - sum_list (take 11 ee_withdrawals) \<and>
             length er_balances = 12 \<and> er_balances ! 0 = ob_er \<and>
             (\<forall>i. 1 \<le> i \<and> i \<le> 11 \<longrightarrow>
                er_balances ! i = er_balances ! (i - 1) + er_contributions ! (i - 1) - er_withdrawals ! (i - 1)) \<and>
             er_balances ! 11 = ob_er + sum_list (take 11 er_contributions) - sum_list (take 11 er_withdrawals))) \<and>
         (calculate_monthly_balances ob_ee ob_er ee_contributions er_contributions
              ee_withdrawals er_withdrawals rate =
            Inr (ee_balances, er_balances, ee_interest, er_interest) \<longrightarrow>
          length ee_balances = 12 \<and> ee_balances ! 0 = ob_ee \<and>
          (\<forall>i. 1 \<le> i \<and> i \<le> 11 \<longrightarrow>
             ee_balances ! i = ee_balances ! (i - 1) + ee_contributions ! (i - 1) - ee_withdrawals ! (i - 1)) \<and>
          ee_balances ! 11 = ob_ee + sum_list (take 11 ee_contributions) - sum_list (take 11 ee_withdrawals) \<and>
          length er_balances = 12 \<and> er_balances ! 0 = ob_er \<and>
          (\<forall>i. 1 \<le> i \<and> i \<le> 11 \<longrightarrow>
             er_balances ! i = er_balances ! (i - 1) + er_contributions ! (i - 1) - er_withdrawals ! (i - 1)) \<and>
          er_balances ! 11 = ob_er + sum_list (take 11 er_contributions) - sum_list (take 11 er_withdrawals))"
proof -
  have series: "length eb = 12 \<and> eb ! 0 = ob_ee \<and>
          (\<forall>i. 1 \<le> i \<and> i \<le> 11 \<longrightarrow>
             eb ! i = eb ! (i - 1) + ee_contributions ! (i - 1) - ee_withdrawals ! (i - 1)) \<and>
          eb ! 11 = ob_ee + sum_list (take 11 ee_contributions) - sum_list (take 11 ee_withdrawals) \<and>
          length rb = 12 \<and> rb ! 0 = ob_er \<and>
          (\<forall>i. 1 \<le> i \<and> i \<le> 11 \<longrightarrow>
             rb ! i = rb ! (i - 1) + er_contributions ! (i - 1) - er_withdrawals ! (i - 1)) \<and>
          rb ! 11 = ob_er + sum_list (take 11 er_contributions) - sum_list (take 11 er_withdrawals)"
    if res: "calculate_monthly_balances ob_ee ob_er ee_contributions er_contributions
              ee_withdrawals er_withdrawals q = Inr (eb, rb, ei, ri)"
    for q eb rb ei ri
  proof -
    have n: "length ee_contributions - 1 = 11" using assms(1) by simp
    have le: "length ee_contributions - 1 \<le> length ee_withdrawals"
      "length ee_contributions - 1 \<le> length er_contributions"
      "length ee_contributions - 1 \<le> length er_withdrawals"
      using assms(1-4) by simp_all
    have eq: "Inr (eb, rb, ei, ri) =
      bindE (interest
            (sum_list (map (\<lambda>j. ob_ee + sum_list (take j ee_contributions) - sum_list (take j ee_withdrawals))
               [0 ..< Suc 11]))
            (sum_list ee_withdrawals) q) (\<lambda>ee_interest.
         bindE (interest
            (sum_list (map (\<lambda>j. ob_er + sum_list (take j er_contributions) - sum_list (take j er_withdrawals))
               [0 ..< Suc 11]))
            (sum_list er_withdrawals) q) (\<lambda>er_interest.
         Inr (map (\<lambda>j. ob_ee + sum_list (take j ee_contributions) - sum_list (take j ee_withdrawals))
                [0 ..< Suc 11],
              map (\<lambda>j. ob_er + sum_list (take j er_contributions) - sum_list (take j er_withdrawals))
                [0 ..< Suc 11],
              ee_interest, er_interest)))"
      using calculate_monthly_balances_eq[OF le, of ob_ee ob_er q] res by (simp only: n)
    have eb: "eb =
      map (\<lambda>j. ob_ee + sum_list (take j ee_contributions) - sum_list (take j ee_withdrawals)) [0 ..< Suc 11]"
      and rb: "rb =
      map (\<lambda>j. ob_er + sum_list (take j er_contributions) - sum_list (take j er_withdrawals)) [0 ..< Suc 11]"
      using eq[symmetric] by (auto simp only: bindE_eq_Inr sum.inject prod.inject)
    have l: "(11 :: nat) \<le> length ee_contributions" "(11 :: nat) \<le> length ee_withdrawals"
      "(11 :: nat) \<le> length er_contributions" "(11 :: nat) \<le> length er_withdrawals"
      using assms(1-4) by simp_all
    have a: "length eb = 12" "length rb = 12" by (simp_all add: eb rb)
    have b: "eb ! 0 = ob_ee" "rb ! 0 = ob_er"
      unfolding eb rb by (simp_all only: series_nth[OF le0]) simp_all
    have c: "eb ! 11 = ob_ee + sum_list (take 11 ee_contributions) - sum_list (take 11 ee_withdrawals)"
      "rb ! 11 = ob_er + sum_list (take 11 er_contributions) - sum_list (take 11 er_withdrawals)"
      unfolding eb rb by (simp_all only: series_nth[OF order_refl])
    have d: "\<forall>i. 1 \<le> i \<and> i \<le> 11 \<longrightarrow>
      eb ! i = eb ! (i - 1) + ee_contributions ! (i - 1) - ee_withdrawals ! (i - 1)"
      unfolding eb using series_step[OF _ _ l(1) l(2)] by blast
    have e: "\<forall>i. 1 \<le> i \<and> i \<le> 11 \<longrightarrow>
      rb ! i = rb ! (i - 1) + er_contributions ! (i - 1) - er_withdrawals ! (i - 1)"
      unfolding rb using series_step[OF _ _ l(3) l(4)] by blast
    from a b c d e show ?thesis by (intro conjI)
  qed
  have ret: "\<exists>eb rb ei ri.
             calculate_monthly_balances ob_ee ob_er ee_contributions er_contributions
               ee_withdrawals er_withdrawals (Finite r) = Inr (eb, rb, ei, ri)"
    if b: "\<bar>ob_ee\<bar> \<le> 2 ^ 64 \<and> \<bar>ob_er\<bar> \<le> 2 ^ 64 \<and> \<bar>r\<bar> \<le> 2 ^ 64 \<and>
          (\<forall>x \<in> set ee_contributions \<union> set er_contributions \<union> set ee_withdrawals
                 \<union> set er_withdrawals. \<bar>x\<bar> \<le> 2 ^ 64)"
  proof -
    have len: "length er_contributions = length ee_contributions"
      "length ee_withdrawals = length ee_contributions"
      "length er_withdrawals = length ee_contributions"
      "length ee_contributions \<le> 2 ^ 32"
      using assms by simp_all
    from b have ob: "\<bar>ob_ee\<bar> \<le> 2 ^ 64" "\<bar>ob_er\<bar> \<le> 2 ^ 64" and r: "\<bar>r\<bar> \<le> 2 ^ 64"
      and am: "\<forall>x \<in> set ee_contributions. \<bar>x\<bar> \<le> 2 ^ 64"
        "\<forall>x \<in> set er_contributions. \<bar>x\<bar> \<le> 2 ^ 64"
        "\<forall>x \<in> set ee_withdrawals. \<bar>x\<bar> \<le> 2 ^ 64"
        "\<forall>x \<in> set er_withdrawals. \<bar>x\<bar> \<le> 2 ^ 64"
      by blast+
    show ?thesis using calculate_monthly_balances_bounded[OF len ob am r] by blast
  qed
  show ?thesis
  proof (rule conjI; rule impI)
    assume b: "\<bar>ob_ee\<bar> \<le> 2 ^ 64 \<and> \<bar>ob_er\<bar> \<le> 2 ^ 64 \<and> \<bar>r\<bar> \<le> 2 ^ 64 \<and>
          (\<forall>x \<in> set ee_contributions \<union> set er_contributions \<union> set ee_withdrawals
                 \<union> set er_withdrawals. \<bar>x\<bar> \<le> 2 ^ 64)"
    from ret[OF b] obtain eb rb ei ri where
      res: "calculate_monthly_balances ob_ee ob_er ee_contributions er_contributions
               ee_withdrawals er_withdrawals (Finite r) = Inr (eb, rb, ei, ri)"
      by blast
    from res series[OF res] show "\<exists>ee_balances er_balances ee_interest er_interest.
             calculate_monthly_balances ob_ee ob_er ee_contributions er_contributions
               ee_withdrawals er_withdrawals (Finite r) =
             Inr (ee_balances, er_balances, ee_interest, er_interest) \<and>
             length ee_balances = 12 \<and> ee_balances ! 0 = ob_ee \<and>
             (\<forall>i. 1 \<le> i \<and> i \<le> 11 \<longrightarrow>
                ee_balances ! i = ee_balances ! (i - 1) + ee_contributions ! (i - 1) - ee_withdrawals ! (i - 1)) \<and>
             ee_balances ! 11 = ob_ee + sum_list (take 11 ee_contributions) - sum_list (take 11 ee_withdrawals) \<and>
             length er_balances = 12 \<and> er_balances ! 0 = ob_er \<and>
             (\<forall>i. 1 \<le> i \<and> i \<le> 11 \<longrightarrow>
                er_balances ! i = er_balances ! (i - 1) + er_contributions ! (i - 1) - er_withdrawals ! (i - 1)) \<and>
             er_balances ! 11 = ob_er + sum_list (take 11 er_contributions) - sum_list (take 11 er_withdrawals)"
      by blast
  next
    assume res: "calculate_monthly_balances ob_ee ob_er ee_contributions er_contributions
              ee_withdrawals er_withdrawals rate =
            Inr (ee_balances, er_balances, ee_interest, er_interest)"
    show "length ee_balances = 12 \<and> ee_balances ! 0 = ob_ee \<and>
          (\<forall>i. 1 \<le> i \<and> i \<le> 11 \<longrightarrow>
             ee_balances ! i = ee_balances ! (i - 1) + ee_contributions ! (i - 1) - ee_withdrawals ! (i - 1)) \<and>
          ee_balances ! 11 = ob_ee + sum_list (take 11 ee_contributions) - sum_list (take 11 ee_withdrawals) \<and>
          length er_balances = 12 \<and> er_balances ! 0 = ob_er \<and>
          (\<forall>i. 1 \<le> i \<and> i \<le> 11 \<longrightarrow>
             er_balances ! i = er_balances ! (i - 1) + er_contributions ! (i - 1) - er_withdrawals ! (i - 1)) \<and>
          er_balances ! 11 = ob_er + sum_list (take 11 er_contributions) - sum_list (take 11 er_withdrawals)"
      by (rule series[OF res])
  qed
qed

text \<open>The theorem at that year.\<close>

theorem monthly_balance_series_witness:
  "\<exists>ee_balances er_balances ee_interest er_interest.
     calculate_monthly_balances 50000 15000
       [1800, 1800, 1860, 1800, 1800, 1800, 1920, 1800, 1800, 1860, 1800, 1800]
       [550, 550, 569, 550, 550, 550, 587, 550, 550, 569, 550, 550]
       [0, 0, 0, 5000, 0, 0, 0, 0, 0, 0, 0, 700]
       [0, 0, 0, 0, 0, 0, 0, 0, 0, 0, 0, 0] (Finite (17 / 2)) =
     Inr (ee_balances, er_balances, ee_interest, er_interest) \<and>
     length ee_balances = 12 \<and> ee_balances ! 0 = 50000 \<and>
     ee_balances ! 11 = 50000
       + sum_list (take 11 [1800, 1800, 1860, 1800, 1800, 1800, 1920, 1800, 1800, 1860, 1800, 1800])
       - sum_list (take 11 [0, 0, 0, 5000, 0, 0, 0, 0, 0, 0, 0, 700]) \<and>
     length er_balances = 12 \<and> er_balances ! 0 = 15000"
proof -
  have l: "length [1800, 1800, 1860, 1800, 1800, 1800, 1920, 1800, 1800, 1860, 1800, 1800 :: int] = 12"
    "length [550, 550, 569, 550, 550, 550, 587, 550, 550, 569, 550, 550 :: int] = 12"
    "length [0, 0, 0, 5000, 0, 0, 0, 0, 0, 0, 0, 700 :: int] = 12"
    "length [0, 0, 0, 0, 0, 0, 0, 0, 0, 0, 0, 0 :: int] = 12"
    by simp_all
  have b: "\<bar>50000 :: int\<bar> \<le> 2 ^ 64 \<and> \<bar>15000 :: int\<bar> \<le> 2 ^ 64 \<and> \<bar>17 / 2 :: rat\<bar> \<le> 2 ^ 64 \<and>
      (\<forall>x \<in> set [1800, 1800, 1860, 1800, 1800, 1800, 1920, 1800, 1800, 1860, 1800, 1800]
            \<union> set [550, 550, 569, 550, 550, 550, 587, 550, 550, 569, 550, 550]
            \<union> set [0, 0, 0, 5000, 0, 0, 0, 0, 0, 0, 0, 700]
            \<union> set [0, 0, 0, 0, 0, 0, 0, 0, 0, 0, 0, 0]. \<bar>x :: int\<bar> \<le> 2 ^ 64)"
    by simp
  note t = monthly_balance_series[OF l, of 50000 15000 "17 / 2" "Finite (17 / 2)", THEN conjunct1, THEN mp, OF b]
  from t show ?thesis by blast
qed



text \<open>
  The function is not total on lists of equal length: an infinite rate, or an opening
  balance too large for a float, makes the interest computation raise.
\<close>

lemma float_of_int_overflow:
  assumes "2 ^ 1025 \<le> \<bar>n\<bar>"
  shows "float_of_int n = Inl OverflowError"
proof -
  define x :: rat where "x = of_int n"
  have "(of_int (2 ^ 1025) :: rat) \<le> of_int \<bar>n\<bar>" using assms by (simp only: of_int_le_iff)
  then have x: "2 ^ 1025 \<le> \<bar>x\<bar>" by (simp add: x_def)
  have "\<bar>fl x - x\<bar> \<le> \<bar>x\<bar> / 2 ^ 53 + pow2 (- 1075)" by (rule fl_error)
  then have "\<bar>fl x - x\<bar> \<le> \<bar>x\<bar> / 2 ^ 53 + 1 / 2 ^ 60" using tau_small by linarith
  moreover have "\<bar>x\<bar> / 2 ^ 53 \<le> \<bar>x\<bar> / 4" by (rule divide_left_mono) simp_all
  moreover have "(1 :: rat) / 2 ^ 60 \<le> 1" by simp
  moreover have "(1 :: rat) \<le> 2 ^ 1025 / 4" by simp
  ultimately have "\<bar>x\<bar> / 2 \<le> \<bar>fl x\<bar>" using x by linarith
  moreover have "(2 :: rat) ^ 1024 = 2 ^ 1025 / 2" by simp
  ultimately have "2 ^ 1024 \<le> \<bar>fl x\<bar>" using x by linarith
  then show ?thesis by (simp add: float_of_int_def overflows_iff x_def)
qed

theorem monthly_balances_total_counterexample:
  "calculate_monthly_balances 12000 3600 [1000] [300] [0] [0] PInf = Inl OverflowError \<and>
   calculate_monthly_balances (2 ^ 1025) 0 [0] [0] [0] [0] (Finite (17 / 2)) = Inl OverflowError"
proof
  show "calculate_monthly_balances 12000 3600 [1000] [300] [0] [0] PInf = Inl OverflowError"
    by code_simp
  have "float_of_int (2 ^ 1025) = Inl OverflowError"
    by (rule float_of_int_overflow) simp
  then show "calculate_monthly_balances (2 ^ 1025) 0 [0] [0] [0] [0] (Finite (17 / 2)) = Inl OverflowError"
    by (simp add: calculate_monthly_balances_def interest_def)
qed

text \<open>
  C10, as the program has it. When the four lists have the same length \<open>n\<close>, no list is
  read out of range: the loop, whose bound comes from the employee contributions alone,
  runs through its \<open>n - 1\<close> rounds (none when \<open>n\<close> is 0) without an exception and leaves
  series of \<open>n - 1\<close> appended balances after the opening one. \<open>calculate_monthly_balances\<close>
  then either returns these series or raises \<^verbatim>\<open>OverflowError\<close> or \<^verbatim>\<open>ValueError\<close> in the
  float arithmetic of the interest, and it does return whenever there are at most
  \<open>2\<^sup>3\<^sup>2\<close> months, the opening balances and the monthly amounts are at most \<open>2\<^sup>6\<^sup>4\<close> in
  magnitude, and the rate is a finite float of at most \<open>2\<^sup>6\<^sup>4\<close> in magnitude.
\<close>

theorem monthly_balances_index_safe:
  assumes "length er_contributions = length ee_contributions"
    and "length ee_withdrawals = length ee_contributions"
    and "length er_withdrawals = length ee_contributions"
  shows "(\<exists>balance_ee balance_er ee_balances er_balances.
            for_loop (balance_step ee_contributions er_contributions ee_withdrawals er_withdrawals)
              [0 ..< length ee_contributions - 1] (ob_ee, ob_er, [ob_ee], [ob_er]) =
            Inr (balance_ee, balance_er, ee_balances, er_balances) \<and>
            length ee_balances = Suc (length ee_contributions - 1) \<and>
            length er_balances = Suc (length ee_contributions - 1)) \<and>
         ((\<exists>ee_balances er_balances ee_interest er_interest.
             calculate_monthly_balances ob_ee ob_er ee_contributions er_contributions
               ee_withdrawals er_withdrawals rate =
             Inr (ee_balances, er_balances, ee_interest, er_interest) \<and>
             length ee_balances = Suc (length ee_contributions - 1) \<and>
             length er_balances = Suc (length ee_contributions - 1)) \<or>
          calculate_monthly_balances ob_ee ob_er ee_contributions er_contributions
            ee_withdrawals er_withdrawals rate = Inl OverflowError \<or>
          calculate_monthly_balances ob_ee ob_er ee_contributions er_contributions
            ee_withdrawals er_withdrawals rate = Inl ValueError) \<and>
         (length ee_contributions \<le> 2 ^ 32 \<and>
          \<bar>ob_ee\<bar> \<le> 2 ^ 64 \<and> \<bar>ob_er\<bar> \<le> 2 ^ 64 \<and> \<bar>r\<bar> \<le> 2 ^ 64 \<and>
          (\<forall>x \<in> set ee_contributions \<union> set er_contributions \<union> set ee_withdrawals
                 \<union> set er_withdrawals. \<bar>x\<bar> \<le> 2 ^ 64) \<longrightarrow>
          (\<exists>ee_balances er_balances ee_interest er_interest.
             calculate_monthly_balances ob_ee ob_er ee_contributions er_contributions
               ee_withdrawals er_withdrawals (Finite r) =
             Inr (ee_balances, er_balances, ee_interest, er_interest) \<and>
             length ee_balances = Suc (length ee_contributions - 1) \<and>
             length er_balances = Suc (length ee_contributions - 1)))"
proof -
  have le: "length ee_contributions - 1 \<le> length ee_withdrawals"
    "length ee_contributions - 1 \<le> length er_contributions"
    "length ee_contributions - 1 \<le> length er_withdrawals"
    using assms by simp_all
  have "length ee_contributions - 1 \<le> length ee_contributions" by simp
  note loop = balance_loop[OF this le(1) le(2) le(3), of ob_ee ob_er]
  note eq = calculate_monthly_balances_eq[OF le, of ob_ee ob_er rate]
  let ?eb = "map (\<lambda>j. ob_ee + sum_list (take j ee_contributions) - sum_list (take j ee_withdrawals))
               [0 ..< Suc (length ee_contributions - 1)]"
  let ?rb = "map (\<lambda>j. ob_er + sum_list (take j er_contributions) - sum_list (take j er_withdrawals))
               [0 ..< Suc (length ee_contributions - 1)]"
  have len: "length ?eb = Suc (length ee_contributions - 1)" "length ?rb = Suc (length ee_contributions - 1)"
    by (simp_all del: upt_Suc)
  have first: "\<exists>balance_ee balance_er ee_balances er_balances.
            for_loop (balance_step ee_contributions er_contributions ee_withdrawals er_withdrawals)
              [0 ..< length ee_contributions - 1] (ob_ee, ob_er, [ob_ee], [ob_er]) =
            Inr (balance_ee, balance_er, ee_balances, er_balances) \<and>
            length ee_balances = Suc (length ee_contributions - 1) \<and>
            length er_balances = Suc (length ee_contributions - 1)"
    apply (intro exI conjI)
      apply (rule loop)
     apply (rule len(1))
    apply (rule len(2))
    done
  have out: "(\<exists>ee_balances er_balances ee_interest er_interest.
             calculate_monthly_balances ob_ee ob_er ee_contributions er_contributions
               ee_withdrawals er_withdrawals rate =
             Inr (ee_balances, er_balances, ee_interest, er_interest) \<and>
             length ee_balances = Suc (length ee_contributions - 1) \<and>
             length er_balances = Suc (length ee_contributions - 1)) \<or>
          calculate_monthly_balances ob_ee ob_er ee_contributions er_contributions
            ee_withdrawals er_withdrawals rate = Inl OverflowError \<or>
          calculate_monthly_balances ob_ee ob_er ee_contributions er_contributions
            ee_withdrawals er_withdrawals rate = Inl ValueError"
  proof (cases "interest (sum_list ?eb) (sum_list ee_withdrawals) rate")
    case (Inl e)
    then show ?thesis using interest_errors[OF Inl] unfolding eq by auto
  next
    case ee: (Inr ee_interest)
    show ?thesis
    proof (cases "interest (sum_list ?rb) (sum_list er_withdrawals) rate")
      case (Inl e)
      then show ?thesis using interest_errors[OF Inl] unfolding eq ee by auto
    next
      case (Inr er_interest)
      then show ?thesis unfolding eq ee using len by simp
    qed
  qed
  have total: "length ee_contributions \<le> 2 ^ 32 \<and>
          \<bar>ob_ee\<bar> \<le> 2 ^ 64 \<and> \<bar>ob_er\<bar> \<le> 2 ^ 64 \<and> \<bar>r\<bar> \<le> 2 ^ 64 \<and>
          (\<forall>x \<in> set ee_contributions \<union> set er_contributions \<union> set ee_withdrawals
                 \<union> set er_withdrawals. \<bar>x\<bar> \<le> 2 ^ 64) \<longrightarrow>
          (\<exists>ee_balances er_balances ee_interest er_interest.
             calculate_monthly_balances ob_ee ob_er ee_contributions er_contributions
               ee_withdrawals er_withdrawals (Finite r) =
             Inr (ee_balances, er_balances, ee_interest, er_interest) \<and>
             length ee_balances = Suc (length ee_contributions - 1) \<and>
             length er_balances = Suc (length ee_contributions - 1))"
  proof
    assume b: "length ee_contributions \<le> 2 ^ 32 \<and>
          \<bar>ob_ee\<bar> \<le> 2 ^ 64 \<and> \<bar>ob_er\<bar> \<le> 2 ^ 64 \<and> \<bar>r\<bar> \<le> 2 ^ 64 \<and>
          (\<forall>x \<in> set ee_contributions \<union> set er_contributions \<union> set ee_withdrawals
                 \<union> set er_withdrawals. \<bar>x\<bar> \<le> 2 ^ 64)"
    then have n: "length ee_contributions \<le> 2 ^ 32"
      and ob: "\<bar>ob_ee\<bar> \<le> 2 ^ 64" "\<bar>ob_er\<bar> \<le> 2 ^ 64" and r: "\<bar>r\<bar> \<le> 2 ^ 64"
      and am: "\<forall>x \<in> set ee_contributions. \<bar>x\<bar> \<le> 2 ^ 64"
        "\<forall>x \<in> set er_contributions. \<bar>x\<bar> \<le> 2 ^ 64"
        "\<forall>x \<in> set ee_withdrawals. \<bar>x\<bar> \<le> 2 ^ 64"
        "\<forall>x \<in> set er_withdrawals. \<bar>x\<bar> \<le> 2 ^ 64"
      by blast+
    note ret = calculate_monthly_balances_bounded[OF assms n ob am r]
    show "\<exists>ee_balances er_balances ee_interest er_interest.
             calculate_monthly_balances ob_ee ob_er ee_contributions er_contributions
               ee_withdrawals er_withdrawals (Finite r) =
             Inr (ee_balances, er_balances, ee_interest, er_interest) \<and>
             length ee_balances = Suc (length ee_contributions - 1) \<and>
             length er_balances = Suc (length ee_contributions - 1)"
      apply (intro exI conjI)
        apply (rule ret)
       apply (rule len(1))
      apply (rule len(2))
      done
  qed
  from first out total show ?thesis by (intro conjI)
qed

text \<open>The theorem at the year above, where the function returns.\<close>

theorem monthly_balances_index_safe_witness:
  "(\<exists>balance_ee balance_er ee_balances er_balances.
      for_loop (balance_step [1800, 1800, 1860, 1800, 1800, 1800, 1920, 1800, 1800, 1860, 1800, 1800]
          [550, 550, 569, 550, 550, 550, 587, 550, 550, 569, 550, 550]
          [0, 0, 0, 5000, 0, 0, 0, 0, 0, 0, 0, 700]
          [0, 0, 0, 0, 0, 0, 0, 0, 0, 0, 0, 0])
        [0 ..< length [1800, 1800, 1860, 1800, 1800, 1800, 1920, 1800, 1800, 1860, 1800, 1800 :: int] - 1]
        (50000, 15000, [50000], [15000]) =
      Inr (balance_ee, balance_er, ee_balances, er_balances) \<and>
      length ee_balances = Suc (length [1800, 1800, 1860, 1800, 1800, 1800, 1920, 1800, 1800, 1860, 1800, 1800 :: int] - 1) \<and>
      length er_balances = Suc (length [1800, 1800, 1860, 1800, 1800, 1800, 1920, 1800, 1800, 1860, 1800, 1800 :: int] - 1)) \<and>
   (\<exists>ee_balances er_balances ee_interest er_interest.
      calculate_monthly_balances 50000 15000
        [1800, 1800, 1860, 1800, 1800, 1800, 1920, 1800, 1800, 1860, 1800, 1800]
        [550, 550, 569, 550, 550, 550, 587, 550, 550, 569, 550, 550]
        [0, 0, 0, 5000, 0, 0, 0, 0, 0, 0, 0, 700]
        [0, 0, 0, 0, 0, 0, 0, 0, 0, 0, 0, 0] (Finite (17 / 2)) =
      Inr (ee_balances, er_balances, ee_interest, er_interest) \<and>
      length ee_balances = Suc (length [1800, 1800, 1860, 1800, 1800, 1800, 1920, 1800, 1800, 1860, 1800, 1800 :: int] - 1) \<and>
      length er_balances = Suc (length [1800, 1800, 1860, 1800, 1800, 1800, 1920, 1800, 1800, 1860, 1800, 1800 :: int] - 1))"
proof -
  have l: "length [550, 550, 569, 550, 550, 550, 587, 550, 550, 569, 550, 550 :: int] =
      length [1800, 1800, 1860, 1800, 1800, 1800, 1920, 1800, 1800, 1860, 1800, 1800 :: int]"
    "length [0, 0, 0, 5000, 0, 0, 0, 0, 0, 0, 0, 700 :: int] =
      length [1800, 1800, 1860, 1800, 1800, 1800, 1920, 1800, 1800, 1860, 1800, 1800 :: int]"
    "length [0, 0, 0, 0, 0, 0, 0, 0, 0, 0, 0, 0 :: int] =
      length [1800, 1800, 1860, 1800, 1800, 1800, 1920, 1800, 1800, 1860, 1800, 1800 :: int]"
    by simp_all
  have b: "length [1800, 1800, 1860, 1800, 1800, 1800, 1920, 1800, 1800, 1860, 1800, 1800 :: int] \<le> 2 ^ 32 \<and>
    \<bar>50000 :: int\<bar> \<le> 2 ^ 64 \<and> \<bar>15000 :: int\<bar> \<le> 2 ^ 64 \<and> \<bar>17 / 2 :: rat\<bar> \<le> 2 ^ 64 \<and>
    (\<forall>x \<in> set [1800, 1800, 1860, 1800, 1800, 1800, 1920, 1800, 1800, 1860, 1800, 1800]
          \<union> set [550, 550, 569, 550, 550, 550, 587, 550, 550, 569, 550, 550]
          \<union> set [0, 0, 0, 5000, 0, 0, 0, 0, 0, 0, 0, 700]
          \<union> set [0, 0, 0, 0, 0, 0, 0, 0, 0, 0, 0, 0]. \<bar>x :: int\<bar> \<le> 2 ^ 64)"
    by simp
  note t = monthly_balances_index_safe[OF l, of 50000 15000 "Finite (17 / 2)" "17 / 2"]
  from t b show ?thesis by blast
qed

subsection \<open>Schema validator\<close>


subsection \<open>Record extractor\<close>

text \<open>
  C8. \<open>fetch_sheet_data\<close> reads the rows from the second to the last. With the data type
  \<^verbatim>\<open>'single'\<close> the record of a row is the value of its first cell, with any other data
  type the values of all its cells from the first column to the last. In both cases a
  missing value is replaced by \<open>0\<close> and every other value is kept unchanged.
\<close>

theorem fetch_sheet_data_defaults:
  "(\<exists>values. fetch_sheet_data sheet ''single'' = Single values \<and>
      length values = max_row sheet - 1 \<and>
      (\<forall>row. 2 \<le> row \<and> row \<le> max_row sheet \<longrightarrow>
         values ! (row - 2) =
           (if cell_value sheet row 1 = PyNone then PyInt 0 else cell_value sheet row 1))) \<and>
   (data_type \<noteq> ''single'' \<longrightarrow>
     (\<exists>rows. fetch_sheet_data sheet data_type = Multi rows \<and>
        length rows = max_row sheet - 1 \<and>
        (\<forall>row. 2 \<le> row \<and> row \<le> max_row sheet \<longrightarrow>
           length (rows ! (row - 2)) = max_column sheet \<and>
           (\<forall>column. 1 \<le> column \<and> column \<le> max_column sheet \<longrightarrow>
              rows ! (row - 2) ! (column - 1) =
                (if cell_value sheet row column = PyNone then PyInt 0
                 else cell_value sheet row column)))))"
proof -
  have idx: "[2 ..< max_row sheet + 1] ! (row - 2) = row"
    if "2 \<le> row" "row \<le> max_row sheet" for row
  proof -
    have "[2 ..< max_row sheet + 1] ! (row - 2) = 2 + (row - 2)"
      by (rule nth_upt) (use that in simp)
    then show ?thesis using that by simp
  qed
  have cidx: "[1 ..< max_column sheet + 1] ! (column - 1) = column"
    if "1 \<le> column" "column \<le> max_column sheet" for column
  proof -
    have "[1 ..< max_column sheet + 1] ! (column - 1) = 1 + (column - 1)"
      by (rule nth_upt) (use that in simp)
    then show ?thesis using that by simp
  qed
  have single: "\<forall>row. 2 \<le> row \<and> row \<le> max_row sheet \<longrightarrow>
      map (\<lambda>row. none_to_zero (cell_value sheet row 1)) [2 ..< max_row sheet + 1] ! (row - 2) =
        (if cell_value sheet row 1 = PyNone then PyInt 0 else cell_value sheet row 1)"
  proof (intro allI impI)
    fix row
    assume a: "2 \<le> row \<and> row \<le> max_row sheet"
    then have lt: "row - 2 < length [2 ..< max_row sheet + 1]" by auto
    from a have i: "[2 ..< max_row sheet + 1] ! (row - 2) = row" by (simp only: idx)
    show "map (\<lambda>row. none_to_zero (cell_value sheet row 1)) [2 ..< max_row sheet + 1] ! (row - 2) =
        (if cell_value sheet row 1 = PyNone then PyInt 0 else cell_value sheet row 1)"
      unfolding nth_map[OF lt] i by (simp add: none_to_zero_def)
  qed
  have multi: "\<forall>row. 2 \<le> row \<and> row \<le> max_row sheet \<longrightarrow>
      length (map (\<lambda>row. map (\<lambda>column. none_to_zero (cell_value sheet row column))
                              [1 ..< max_column sheet + 1])
                 [2 ..< max_row sheet + 1] ! (row - 2)) = max_column sheet \<and>
      (\<forall>column. 1 \<le> column \<and> column \<le> max_column sheet \<longrightarrow>
         map (\<lambda>row. map (\<lambda>column. none_to_zero (cell_value sheet row column))
                              [1 ..< max_column sheet + 1])
                 [2 ..< max_row sheet + 1] ! (row - 2) ! (column - 1) =
           (if cell_value sheet row column = PyNone then PyInt 0 else cell_value sheet row column))"
  proof (intro allI impI conjI)
    fix row
    assume a: "2 \<le> row \<and> row \<le> max_row sheet"
    then have lt: "row - 2 < length [2 ..< max_row sheet + 1]" by auto
    from a have i: "[2 ..< max_row sheet + 1] ! (row - 2) = row" by (simp only: idx)
    show "length (map (\<lambda>row. map (\<lambda>column. none_to_zero (cell_value sheet row column))
                              [1 ..< max_column sheet + 1])
                 [2 ..< max_row sheet + 1] ! (row - 2)) = max_column sheet"
      unfolding nth_map[OF lt] by (simp del: upt_Suc)
    fix column
    assume b: "1 \<le> column \<and> column \<le> max_column sheet"
    then have clt: "column - 1 < length [1 ..< max_column sheet + 1]" by auto
    from b have j: "[1 ..< max_column sheet + 1] ! (column - 1) = column" by (simp only: cidx)
    show "map (\<lambda>row. map (\<lambda>column. none_to_zero (cell_value sheet row column))
                              [1 ..< max_column sheet + 1])
                 [2 ..< max_row sheet + 1] ! (row - 2) ! (column - 1) =
           (if cell_value sheet row column = PyNone then PyInt 0 else cell_value sheet row column)"
      unfolding nth_map[OF lt] i nth_map[OF clt] j by (simp add: none_to_zero_def)
  qed
  show ?thesis
    using single multi by (simp add: fetch_sheet_data_def del: upt_Suc)
qed

text \<open>
  The theorem at a sheet of a header row and two data rows of two columns, whose first
  data cell is missing and whose last holds a text.
\<close>

theorem fetch_sheet_data_defaults_witness:
  "fetch_sheet_data sample_sheet ''multi'' = Multi [[PyInt 0, PyInt 22], [PyInt 31, PyStr ''n/a'']] \<and>
   fetch_sheet_data sample_sheet ''single'' = Single [PyInt 0, PyInt 31] \<and>
   [[PyInt 0, PyInt 22], [PyInt 31, PyStr ''n/a'']] ! (2 - 2) ! (1 - 1) =
     (if cell_value sample_sheet 2 1 = PyNone then PyInt 0 else cell_value sample_sheet 2 1)"
proof -
  have m: "fetch_sheet_data sample_sheet ''multi'' = Multi [[PyInt 0, PyInt 22], [PyInt 31, PyStr ''n/a'']]"
    by code_simp
  have s: "fetch_sheet_data sample_sheet ''single'' = Single [PyInt 0, PyInt 31]"
    by code_simp
  have d: "''multi'' \<noteq> ''single''" by simp
  have r: "(2 :: nat) \<le> 2 \<and> 2 \<le> max_row sample_sheet" by (simp add: sample_sheet_def)
  have c: "(1 :: nat) \<le> 1 \<and> 1 \<le> max_column sample_sheet" by (simp add: sample_sheet_def)
  from fetch_sheet_data_defaults[of sample_sheet "''multi''"] d
  obtain rows where rows: "fetch_sheet_data sample_sheet ''multi'' = Multi rows"
    and cells: "\<forall>row. 2 \<le> row \<and> row \<le> max_row sample_sheet \<longrightarrow>
       length (rows ! (row - 2)) = max_column sample_sheet \<and>
       (\<forall>column. 1 \<le> column \<and> column \<le> max_column sample_sheet \<longrightarrow>
          rows ! (row - 2) ! (column - 1) =
            (if cell_value sample_sheet row column = PyNone then PyInt 0
             else cell_value sample_sheet row column))"
    by blast
  from rows m have e: "rows = [[PyInt 0, PyInt 22], [PyInt 31, PyStr ''n/a'']]" by simp
  from cells r c have "rows ! (2 - 2) ! (1 - 1) =
      (if cell_value sample_sheet 2 1 = PyNone then PyInt 0 else cell_value sample_sheet 2 1)"
    by blast
  with m s show ?thesis unfolding e by blast
qed

subsection \<open>Statement assembler\<close>

lemma append_row_Inr:
  "append_row row_of iw output_rows = Inr rows \<longleftrightarrow>
     (\<exists>row. row_of (fst iw) (snd iw) = Inr row \<and> rows = output_rows @ [row])"
  by (auto simp: append_row_def bindE_eq_Inr)

lemma contribution_step_Inr:
  "contribution_step wage (ee_contribs, er_contribs, eps_contribs) = Inr st \<longleftrightarrow>
     (\<exists>ee er eps. calculate_contributions wage = Inr (ee, er, eps) \<and>
        st = (ee_contribs @ [ee], er_contribs @ [er], eps_contribs @ [eps]))"
  by (auto simp: contribution_step_def bindE_eq_Inr)

lemma append_row_loop:
  assumes "for_loop (append_row row_of) (enumerate k wage_rows) output_rows = Inr rows"
  shows "\<exists>new. rows = output_rows @ new \<and> length new = length wage_rows \<and>
           (\<forall>i < length wage_rows. row_of (k + i) (wage_rows ! i) = Inr (new ! i))"
  using assms
proof (induction wage_rows arbitrary: k output_rows)
  case Nil
  then show ?case by simp
next
  case (Cons w ws)
  from Cons.prems obtain row where
    row: "row_of k w = Inr row"
    and rest: "for_loop (append_row row_of) (enumerate (Suc k) ws) (output_rows @ [row]) = Inr rows"
    by (auto simp: append_row_Inr bindE_eq_Inr)
  from Cons.IH[OF rest] obtain new where
    new: "rows = (output_rows @ [row]) @ new" "length new = length ws"
      "\<forall>i < length ws. row_of (Suc k + i) (ws ! i) = Inr (new ! i)"
    by blast
  have "\<forall>i < length (w # ws). row_of (k + i) ((w # ws) ! i) = Inr ((row # new) ! i)"
  proof (intro allI impI)
    fix i
    assume "i < length (w # ws)"
    then show "row_of (k + i) ((w # ws) ! i) = Inr ((row # new) ! i)"
      using row new(3) by (cases i) simp_all
  qed
  moreover have "rows = output_rows @ (row # new)" using new(1) by simp
  moreover have "length (row # new) = length (w # ws)" using new(2) by simp
  ultimately show ?case by blast
qed

lemma generate_output_rows_rows:
  assumes "generate_output_rows wage_sheet_data ob_ee_data ob_er_data ob_eps_data
             wdl_ee_data wdl_er_data rate = Inr rows"
  shows "length rows = Suc (length wage_sheet_data)" and "rows ! 0 = header_row"
    and "\<forall>i < length wage_sheet_data.
           employee_row ob_ee_data ob_er_data ob_eps_data wdl_ee_data wdl_er_data rate i
             (wage_sheet_data ! i) = Inr (rows ! Suc i)"
proof -
  from append_row_loop[OF assms[unfolded generate_output_rows_def]] obtain new where
    new: "rows = [header_row] @ new" "length new = length wage_sheet_data"
      "\<forall>i < length wage_sheet_data.
         employee_row ob_ee_data ob_er_data ob_eps_data wdl_ee_data wdl_er_data rate (0 + i)
           (wage_sheet_data ! i) = Inr (new ! i)"
    by blast
  show "length rows = Suc (length wage_sheet_data)" using new(1,2) by simp
  show "rows ! 0 = header_row" using new(1) by simp
  show "\<forall>i < length wage_sheet_data.
           employee_row ob_ee_data ob_er_data ob_eps_data wdl_ee_data wdl_er_data rate i
             (wage_sheet_data ! i) = Inr (rows ! Suc i)"
    using new(1,3) by simp
qed

lemma contribution_loop:
  assumes "for_loop contribution_step wages (ee_contribs, er_contribs, eps_contribs) = Inr (ees, ers, epss)"
  shows "\<exists>shares. length shares = length wages \<and>
           (\<forall>k < length wages. calculate_contributions (wages ! k) = Inr (shares ! k)) \<and>
           ees = ee_contribs @ map fst shares \<and>
           ers = er_contribs @ map (\<lambda>s. fst (snd s)) shares \<and>
           epss = eps_contribs @ map (\<lambda>s. snd (snd s)) shares"
  using assms
proof (induction wages arbitrary: ee_contribs er_contribs eps_contribs)
  case Nil
  then show ?case by simp
next
  case (Cons w ws)
  from Cons.prems obtain ee er eps where
    s: "calculate_contributions w = Inr (ee, er, eps)"
    and rest: "for_loop contribution_step ws (ee_contribs @ [ee], er_contribs @ [er], eps_contribs @ [eps]) =
        Inr (ees, ers, epss)"
    by (auto simp: contribution_step_Inr bindE_eq_Inr)
  from Cons.IH[OF rest] obtain shares where
    sh: "length shares = length ws"
      "\<forall>k < length ws. calculate_contributions (ws ! k) = Inr (shares ! k)"
      "ees = (ee_contribs @ [ee]) @ map fst shares"
      "ers = (er_contribs @ [er]) @ map (\<lambda>s. fst (snd s)) shares"
      "epss = (eps_contribs @ [eps]) @ map (\<lambda>s. snd (snd s)) shares"
    by blast
  have "\<forall>k < length (w # ws). calculate_contributions ((w # ws) ! k) = Inr (((ee, er, eps) # shares) ! k)"
  proof (intro allI impI)
    fix k
    assume "k < length (w # ws)"
    then show "calculate_contributions ((w # ws) ! k) = Inr (((ee, er, eps) # shares) ! k)"
      using s sh(2) by (cases k) simp_all
  qed
  moreover have "length ((ee, er, eps) # shares) = length (w # ws)" using sh(1) by simp
  moreover have "ees = ee_contribs @ map fst ((ee, er, eps) # shares)"
    "ers = er_contribs @ map (\<lambda>s. fst (snd s)) ((ee, er, eps) # shares)"
    "epss = eps_contribs @ map (\<lambda>s. snd (snd s)) ((ee, er, eps) # shares)"
    using sh(3-5) by simp_all
  ultimately show ?case by blast
qed

lemma py_index_eq_Inr: "py_index xs i = Inr x \<longleftrightarrow> i < length xs \<and> x = xs ! i"
  by (auto simp: py_index_def)

lemma employee_row_Inr:
  assumes "employee_row ob_ee_data ob_er_data ob_eps_data wdl_ee_data wdl_er_data rate i wage_row = Inr row"
  shows "\<exists>shares ob_ee ob_er ob_eps ee_withdrawals er_withdrawals
            ee_balances er_balances ee_interest er_interest.
           1 < length wage_row \<and>
           length shares = length (take 12 (drop 2 wage_row)) \<and>
           (\<forall>k < length shares.
              calculate_contributions (take 12 (drop 2 wage_row) ! k) = Inr (shares ! k)) \<and>
           i < length ob_ee_data \<and> py_int (ob_ee_data ! i) = Inr ob_ee \<and>
           i < length ob_er_data \<and> py_int (ob_er_data ! i) = Inr ob_er \<and>
           i < length ob_eps_data \<and> py_int (ob_eps_data ! i) = Inr ob_eps \<and>
           i < length wdl_ee_data \<and> int_list (wdl_ee_data ! i) = Inr ee_withdrawals \<and>
           i < length wdl_er_data \<and> int_list (wdl_er_data ! i) = Inr er_withdrawals \<and>
           calculate_monthly_balances ob_ee ob_er (map fst shares) (map (\<lambda>s. fst (snd s)) shares)
               ee_withdrawals er_withdrawals rate =
             Inr (ee_balances, er_balances, ee_interest, er_interest) \<and>
           row = [wage_row ! 0, wage_row ! 1,
                  PyStr (str_int ob_ee), PyStr (str_int ob_er),
                  PyStr (str_int ee_interest), PyStr (str_int er_interest),
                  PyStr (str_int (sum_list (map fst shares))),
                  PyStr (str_int (sum_list (map (\<lambda>s. fst (snd s)) shares))),
                  PyStr (str_int (sum_list ee_withdrawals)), PyStr (str_int (sum_list er_withdrawals)),
                  PyStr (str_int (ob_ee + ee_interest + sum_list (map fst shares) - sum_list ee_withdrawals)),
                  PyStr (str_int (ob_er + er_interest + sum_list (map (\<lambda>s. fst (snd s)) shares)
                                    - sum_list er_withdrawals)),
                  PyStr (str_int ob_eps),
                  PyStr (str_int (sum_list (map (\<lambda>s. snd (snd s)) shares))),
                  PyStr (str_int (ob_eps + sum_list (map (\<lambda>s. snd (snd s)) shares)))]"
proof -
  from assms obtain ees ers epss ob_ee ob_er ob_eps ee_withdrawals er_withdrawals
      ee_balances er_balances ee_interest er_interest where
    w: "1 < length wage_row"
    and c: "for_loop contribution_step (take 12 (drop 2 wage_row)) ([], [], []) = Inr (ees, ers, epss)"
    and o: "i < length ob_ee_data" "py_int (ob_ee_data ! i) = Inr ob_ee"
      "i < length ob_er_data" "py_int (ob_er_data ! i) = Inr ob_er"
      "i < length ob_eps_data" "py_int (ob_eps_data ! i) = Inr ob_eps"
    and d: "i < length wdl_ee_data" "int_list (wdl_ee_data ! i) = Inr ee_withdrawals"
      "i < length wdl_er_data" "int_list (wdl_er_data ! i) = Inr er_withdrawals"
    and b: "calculate_monthly_balances ob_ee ob_er ees ers ee_withdrawals er_withdrawals rate =
        Inr (ee_balances, er_balances, ee_interest, er_interest)"
    and r: "row = [wage_row ! 0, wage_row ! 1,
                  PyStr (str_int ob_ee), PyStr (str_int ob_er),
                  PyStr (str_int ee_interest), PyStr (str_int er_interest),
                  PyStr (str_int (sum_list ees)), PyStr (str_int (sum_list ers)),
                  PyStr (str_int (sum_list ee_withdrawals)), PyStr (str_int (sum_list er_withdrawals)),
                  PyStr (str_int (ob_ee + ee_interest + sum_list ees - sum_list ee_withdrawals)),
                  PyStr (str_int (ob_er + er_interest + sum_list ers - sum_list er_withdrawals)),
                  PyStr (str_int ob_eps), PyStr (str_int (sum_list epss)),
                  PyStr (str_int (ob_eps + sum_list epss))]"
    unfolding employee_row_def EXPECTED_WDL_COLUMNS_def Let_def
    by (auto simp: bindE_eq_Inr py_index_eq_Inr split: prod.splits)
  from contribution_loop[OF c] obtain shares where
    s: "length shares = length (take 12 (drop 2 wage_row))"
      "\<forall>k < length (take 12 (drop 2 wage_row)).
         calculate_contributions (take 12 (drop 2 wage_row) ! k) = Inr (shares ! k)"
      "ees = map fst shares" "ers = map (\<lambda>s. fst (snd s)) shares"
      "epss = map (\<lambda>s. snd (snd s)) shares"
    by auto
  show ?thesis
    using w s(1) s(2) o d b r unfolding s(3) s(4) s(5) by (intro exI conjI) (simp_all only: s(1))
qed

end
